theory Spec2Isabelle
  imports Complex_Main "HOL-Library.AList"
begin

chapter \<open>The resumable multipart uploader of st-util\<close>

text \<open>
  A shallow embedding of \<^verbatim>\<open>OssUploader\<close> (\<^verbatim>\<open>src/biz/Uploader.ts\<close>) and of \<^verbatim>\<open>tryParseJson\<close>
  (\<^verbatim>\<open>src/lib/tryParseJson.ts\<close>): the uploader's fields, the browser's store and the log
  of what the uploader does to the outside are one record; each method, and each stretch
  of \<^verbatim>\<open>uploadWork\<close> between two \<^verbatim>\<open>await\<close>s, is a function on it. The token provider,
  the transfer client, the resume policy and the observers are given by what they answer.
\<close>

section \<open>JavaScript values\<close>

text \<open>
  The uploader (\<^verbatim>\<open>OssUploader\<close> in \<^verbatim>\<open>src/biz/Uploader.ts\<close>) keeps its progress
  record (the Track) as a plain object that it writes to \<^verbatim>\<open>localStorage\<close> as JSON and
  reads back with an unchecked cast. What comes back is whatever the stored text parses
  to, so objects are modelled as the runtime has them: ordered property lists of
  values. Numbers are reals (\<^verbatim>\<open>NaN\<close> is the absent number \<open>None\<close>); strings are
  \<open>char list\<close>s.
\<close>

record File =
  f_name :: string
  f_size :: real
  f_type :: string
  f_lastModified :: real
  f_blob :: nat \<comment> \<open>the binary payload: what a File is beyond its four identity fields\<close>

datatype jsval =
    JUndefined
  | JNull
  | JBool bool
  | JNum real
  | JStr string
  | JArr "jsval list"
  | JObj "(string \<times> jsval) list"
  | JFile File

text \<open>\<^verbatim>\<open>v.k\<close> on a value that is neither \<^verbatim>\<open>null\<close> nor \<^verbatim>\<open>undefined\<close>. None of the
  properties the uploader reads (\<^verbatim>\<open>lastTime\<close>, \<^verbatim>\<open>checkpoint\<close>, \<^verbatim>\<open>token\<close>, \<^verbatim>\<open>fileName\<close>,
  \<^verbatim>\<open>param\<close>) exists on an array, a string, a number or a boolean.\<close>

fun getProp :: "jsval \<Rightarrow> string \<Rightarrow> jsval" where
  "getProp (JObj ps) k = (case map_of ps k of None \<Rightarrow> JUndefined | Some v \<Rightarrow> v)"
| "getProp _ k = JUndefined"

text \<open>\<^verbatim>\<open>o.k = v\<close> on an object: an existing property keeps its place, a new one is added
  last.\<close>

fun setProp :: "jsval \<Rightarrow> string \<Rightarrow> jsval \<Rightarrow> jsval" where
  "setProp (JObj ps) k v = JObj (AList.update k v ps)"
| "setProp w k v = w"

text \<open>An object literal \<^verbatim>\<open>{...o, k1: v1, ..., kn: vn}\<close>.\<close>

fun spread :: "jsval \<Rightarrow> (string \<times> jsval) list" where
  "spread (JObj ps) = ps"
| "spread _ = []"

definition objLit :: "(string \<times> jsval) list \<Rightarrow> (string \<times> jsval) list \<Rightarrow> jsval" where
  "objLit ps new = JObj (fold (\<lambda>(k, v). AList.update k v) new ps)"

fun truthy :: "jsval \<Rightarrow> bool" where
  "truthy JUndefined = False"
| "truthy JNull = False"
| "truthy (JBool b) = b"
| "truthy (JNum n) = (n \<noteq> 0)"
| "truthy (JStr s) = (s \<noteq> [])"
| "truthy _ = True"

text \<open>\<^verbatim>\<open>v == null\<close>.\<close>

definition nullish :: "jsval \<Rightarrow> bool" where
  "nullish v = (v = JUndefined \<or> v = JNull)"

subsection \<open>The platform\<close>

text \<open>
  Built-ins of the JavaScript runtime and the npm packages the uploader calls are not
  code of this repository; the model takes them as parameters, so every theorem holds
  for whatever they compute. \<open>stringRandom\<close> (\<^verbatim>\<open>@/lib/string\<close>), \<open>dot\<close>
  (\<^verbatim>\<open>@/lib/object\<close>) and \<open>urlJoin\<close> are helpers whose source is not among the files;
  they are parameters as well.
\<close>

record platform =
  JSON_parse :: "string \<Rightarrow> jsval option" \<comment> \<open>\<open>None\<close>: \<^verbatim>\<open>JSON.parse\<close> throws\<close>
  JSON_stringify :: "jsval \<Rightarrow> string"
  md5 :: "string \<Rightarrow> string"
  StringToNumber :: "string \<Rightarrow> real option" \<comment> \<open>\<open>None\<close>: \<^verbatim>\<open>NaN\<close>\<close>
  NumberToString :: "real \<Rightarrow> string"
  toLowerCase :: "string \<Rightarrow> string"
  stringRandom :: "string \<Rightarrow> string \<Rightarrow> string"
  dot :: "jsval \<Rightarrow> string \<Rightarrow> jsval"
  urlJoin :: "string \<Rightarrow> string \<Rightarrow> string"

fun join :: "string \<Rightarrow> string list \<Rightarrow> string" where
  "join sep [] = []"
| "join sep [x] = x"
| "join sep (x # y # ys) = x @ sep @ join sep (y # ys)"

text \<open>\<^verbatim>\<open>ToString\<close> and \<^verbatim>\<open>ToNumber\<close> of ECMAScript, as the comparison
  \<^verbatim>\<open>item.lastTime > 0\<close> and the subtraction \<^verbatim>\<open>Date.now() - item.lastTime\<close> apply them
  to a property of a parsed value.\<close>

fun ToString :: "platform \<Rightarrow> jsval \<Rightarrow> string" where
  "ToString pf JUndefined = ''undefined''"
| "ToString pf JNull = ''null''"
| "ToString pf (JBool b) = (if b then ''true'' else ''false'')"
| "ToString pf (JNum n) = NumberToString pf n"
| "ToString pf (JStr s) = s"
| "ToString pf (JArr xs) =
     join '','' (map (\<lambda>x. if x = JUndefined \<or> x = JNull then [] else ToString pf x) xs)"
| "ToString pf (JObj ps) = ''[object Object]''"
| "ToString pf (JFile f) = ''[object File]''"

fun ToNumber :: "platform \<Rightarrow> jsval \<Rightarrow> real option" where
  "ToNumber pf JUndefined = None"
| "ToNumber pf JNull = Some 0"
| "ToNumber pf (JBool b) = Some (if b then 1 else 0)"
| "ToNumber pf (JNum n) = Some n"
| "ToNumber pf (JStr s) = StringToNumber pf s"
| "ToNumber pf v = StringToNumber pf (ToString pf v)"

text \<open>\<^verbatim>\<open>a > b\<close> and \<^verbatim>\<open>a - b\<close> on numbers; a comparison with \<^verbatim>\<open>NaN\<close> is false.\<close>

definition num_gt :: "real option \<Rightarrow> real option \<Rightarrow> bool" where
  "num_gt a b = (case (a, b) of (Some x, Some y) \<Rightarrow> y < x | _ \<Rightarrow> False)"

definition num_sub :: "real option \<Rightarrow> real option \<Rightarrow> real option" where
  "num_sub a b = (case (a, b) of (Some x, Some y) \<Rightarrow> Some (x - y) | _ \<Rightarrow> None)"

subsection \<open>tryParseJson\<close>

text \<open>\<^verbatim>\<open>src/lib/tryParseJson.ts\<close>: the text is parsed when it is neither \<^verbatim>\<open>null\<close> nor
  empty; the default is returned otherwise, and when \<^verbatim>\<open>JSON.parse\<close> throws.\<close>

definition tryParseJson :: "platform \<Rightarrow> string option \<Rightarrow> jsval \<Rightarrow> jsval" where
  "tryParseJson pf json defaultValue =
     (case json of
        None \<Rightarrow> defaultValue
      | Some s \<Rightarrow>
          if s \<noteq> [] then (case JSON_parse pf s of None \<Rightarrow> defaultValue | Some v \<Rightarrow> v)
          else defaultValue)"

section \<open>The uploader's state\<close>

datatype OssFileType = FileType_misc | FileType_image | FileType_video

datatype OssSubCategory = SubCategory_misc | SubCategory_monitorVideo

fun fileTypeValue :: "OssFileType \<Rightarrow> real" where
  "fileTypeValue FileType_misc = 1"
| "fileTypeValue FileType_image = 2"
| "fileTypeValue FileType_video = 3"

fun subCategoryValue :: "OssSubCategory \<Rightarrow> real" where
  "subCategoryValue SubCategory_misc = 1"
| "subCategoryValue SubCategory_monitorVideo = 2"

record OssUploadParam =
  fileType :: "OssFileType option"
  subCategory :: "OssSubCategory option"
  fileExtension :: "string option"

record OssUploadParamInner = OssUploadParam +
  resumeParam :: bool \<comment> \<open>\<^verbatim>\<open>resume = false\<close> when the caller leaves it out\<close>

record OssToken =
  region :: string
  bucket :: string
  stsToken :: string
  accessKeyId :: string
  accessKeySecret :: string
  fileName :: string

text \<open>A thrown or rejected value, as far as the uploader looks at it: \<^verbatim>\<open>ex.status\<close> and
  \<^verbatim>\<open>ex.name\<close>.\<close>

datatype error = Error (err_status: "real option") (err_name: string)

definition TypeError :: error where
  "TypeError = Error None ''TypeError''"

datatype event =
    Begin
  | IsPausedChanged bool
  | BeforeGetToken
  | AfterGetToken File OssToken
  | Prepare
  | Progress File real jsval
  | Done File string jsval
  | Fail File error
  | BeforeRetry File nat nat
  | End

text \<open>What is taken for granted about the world: an observer only observes (a handler
  neither throws nor calls the uploader while an event is delivered; the one thing it may
  do is set \<^verbatim>\<open>canceled\<close> on \<^verbatim>\<open>beforeRetry\<close>), \<^verbatim>\<open>localStorage\<close> is always there, and
  within one synchronous stretch of code \<^verbatim>\<open>Date.now()\<close> is one instant.\<close>

text \<open>Everything the uploader does to the world outside it, in the order it does it:
  the events it emits, its calls of the token provider and of the transfer client, the
  writes to \<^verbatim>\<open>localStorage\<close> and the timers it sets.\<close>

datatype effect =
    Emit event
  | GetToken jsval string
  | NewOSS jsval
  | MultipartUpload jsval File jsval
  | ClientCancel
  | SetItem string string
  | RemoveItem string
  | SetTimeout real

record state =
  this_client :: "jsval option" \<comment> \<open>the token the current \<^verbatim>\<open>OSS\<close> client was built from\<close>
  this_file :: "File option"
  this_hash :: "string option"
  isPausedInner :: bool
  hasBegin :: bool
  localStorage :: "(string \<times> string) list"
  trace :: "effect list"

definition initial :: state where
  "initial = \<lparr> this_client = None, this_file = None, this_hash = None, isPausedInner = False,
     hasBegin = False, localStorage = [], trace = [] \<rparr>"

definition emit :: "event \<Rightarrow> state \<Rightarrow> state" where
  "emit e st = st\<lparr> trace := trace st @ [Emit e] \<rparr>"

definition call :: "effect \<Rightarrow> state \<Rightarrow> state" where
  "call c st = st\<lparr> trace := trace st @ [c] \<rparr>"

definition getItem :: "state \<Rightarrow> string \<Rightarrow> string option" where
  "getItem st key = map_of (localStorage st) key"

definition setItem :: "string \<Rightarrow> string \<Rightarrow> state \<Rightarrow> state" where
  "setItem key v st =
     st\<lparr> localStorage := AList.update key v (localStorage st),
         trace := trace st @ [SetItem key v] \<rparr>"

definition removeItem :: "string \<Rightarrow> state \<Rightarrow> state" where
  "removeItem key st =
     st\<lparr> localStorage := AList.delete key (localStorage st),
         trace := trace st @ [RemoveItem key] \<rparr>"

section \<open>Fingerprint and Track store\<close>

definition paramProps :: "OssUploadParam \<Rightarrow> (string \<times> jsval) list" where
  "paramProps p =
     [(''fileType'', case fileType p of None \<Rightarrow> JUndefined | Some t \<Rightarrow> JNum (fileTypeValue t)),
      (''subCategory'',
         case subCategory p of None \<Rightarrow> JUndefined | Some c \<Rightarrow> JNum (subCategoryValue c)),
      (''fileExtension'', case fileExtension p of None \<Rightarrow> JUndefined | Some e \<Rightarrow> JStr e)]"

definition getOssItem :: "File \<Rightarrow> OssUploadParam \<Rightarrow> jsval" where
  "getOssItem f param =
     objLit (paramProps param)
       [(''name'', JStr (f_name f)), (''size'', JNum (f_size f)),
        (''type'', JStr (f_type f)), (''lastModified'', JNum (f_lastModified f))]"

definition getHash :: "platform \<Rightarrow> jsval \<Rightarrow> string" where
  "getHash pf v = md5 pf (JSON_stringify pf v)"

text \<open>\<^verbatim>\<open>name && name.replace(/^[^.]+/, '')\<close>: the leading run of characters other than a
  dot is dropped.\<close>

definition getExt :: "string \<Rightarrow> string" where
  "getExt name = (if name = [] then [] else dropWhile (\<lambda>c. c \<noteq> CHR ''.'') name)"

definition newTrack :: "platform \<Rightarrow> real \<Rightarrow> jsval \<Rightarrow> string \<Rightarrow> OssUploadParam \<Rightarrow> jsval" where
  "newTrack pf now item h param =
     (let ext = (case fileExtension param of None \<Rightarrow> ''undefined'' | Some e \<Rightarrow> e)
      in objLit (spread item)
           [(''fileName'', JStr (stringRandom pf ''upload'' h @ ext)),
            (''percent'', JNum 0),
            (''checkpoint'', JNull),
            (''lastTime'', JNum now),
            (''param'', JObj (paramProps param))])"

definition storageKeyPrefix :: string where
  "storageKeyPrefix = ''@ossuploadtrack''"

definition startsWith :: "string \<Rightarrow> string \<Rightarrow> bool" where
  "startsWith s p = (take (length p) s = p)"

text \<open>\<^verbatim>\<open>cleanTracks\<close>: for each key of \<^verbatim>\<open>Object.keys(localStorage)\<close>. The sweep is
  synchronous; \<open>now\<close> is what \<^verbatim>\<open>Date.now()\<close> returns during it.\<close>

definition cleanTrack :: "platform \<Rightarrow> real \<Rightarrow> real \<Rightarrow> string \<Rightarrow> state \<Rightarrow> state" where
  "cleanTrack pf now expireTime key st =
     (if startsWith key storageKeyPrefix then
        (let json = getItem st key;
             item = tryParseJson pf json JNull
         in if \<not> nullish item \<and> num_gt (ToNumber pf (getProp item ''lastTime'')) (Some 0) then
              (let dtime = num_sub (Some now) (ToNumber pf (getProp item ''lastTime''))
               in if num_gt dtime (Some expireTime) then removeItem key st else st)
            else st)
      else st)"

definition cleanTracks :: "platform \<Rightarrow> real \<Rightarrow> real \<Rightarrow> state \<Rightarrow> state" where
  "cleanTracks pf now expireTime st =
     fold (cleanTrack pf now expireTime) (map fst (localStorage st)) st"

definition saveTrack :: "platform \<Rightarrow> jsval \<Rightarrow> string \<Rightarrow> state \<Rightarrow> state" where
  "saveTrack pf track h st = setItem (storageKeyPrefix @ h) (JSON_stringify pf track) st"

definition getTrack :: "platform \<Rightarrow> string \<Rightarrow> state \<Rightarrow> jsval" where
  "getTrack pf h st = tryParseJson pf (getItem st (storageKeyPrefix @ h)) JNull"

definition delTrack :: "string \<Rightarrow> state \<Rightarrow> state" where
  "delTrack h st = removeItem (storageKeyPrefix @ h) st"

section \<open>The upload engine\<close>

datatype cacheResult = CacheYes | CacheNo | CacheCancel

text \<open>\<^verbatim>\<open>OssOptions extends OssUploadParam\<close>. \<open>maxTryCount\<close> is a count of retries, a
  natural number. \<open>useCache\<close> is the caller's resume policy, absent by default; it
  answers or rejects. \<^verbatim>\<open>getToken\<close> and the event observers answer once per attempt and
  are part of \<open>attempt\<close> below.\<close>

record OssOptions = OssUploadParam +
  getTokenUrlBase :: "string option"
  getTokenUrlPath :: "string option"
  maxTryCount :: nat
  retryTimeout :: real
  expireTime :: real
  useCache :: "(File \<Rightarrow> jsval \<Rightarrow> error + cacheResult) option"

record OssUploadIntent =
  tryCount :: nat
  item :: jsval
  ihash :: string
  track :: jsval
  iresume :: bool

text \<open>What the collaborators do during one attempt: the token provider resolves or
  rejects (when it is called), the transfer client reports progress
  (\<^verbatim>\<open>Date.now()\<close> at the callback, the fraction \<open>p\<close>, the checkpoint) and then
  resolves or rejects, and an observer of \<^verbatim>\<open>beforeRetry\<close> sets \<^verbatim>\<open>canceled\<close> or not.\<close>

record attempt =
  tokenResponse :: "error + OssToken"
  ticks :: "(real \<times> real \<times> jsval) list"
  transferResponse :: "error + jsval"
  retryCanceled :: bool

subsection \<open>Control operations\<close>

definition setIsPaused :: "bool \<Rightarrow> state \<Rightarrow> state" where
  "setIsPaused v st =
     (if v \<noteq> isPausedInner st then emit (IsPausedChanged v) (st\<lparr> isPausedInner := v \<rparr>)
      else st)"

definition pause :: "state \<Rightarrow> state" where
  "pause st =
     (if this_client st \<noteq> None \<and> \<not> isPausedInner st then setIsPaused True (call ClientCancel st)
      else st)"

text \<open>\<^verbatim>\<open>if (this.hash)\<close>: neither \<^verbatim>\<open>null\<close> nor the empty string.\<close>

definition clean :: "state \<Rightarrow> state" where
  "clean st =
     (case this_hash st of
        None \<Rightarrow> st
      | Some h \<Rightarrow>
          if h \<noteq> [] then (delTrack h st)\<lparr> this_hash := None, this_file := None \<rparr> else st)"

text \<open>The method \<^verbatim>\<open>end\<close>.\<close>

definition end_chain :: "state \<Rightarrow> state" where
  "end_chain st = (if hasBegin st then emit End (st\<lparr> hasBegin := False \<rparr>) else st)"

definition stop :: "state \<Rightarrow> state" where
  "stop st = clean (end_chain (pause st))"

subsection \<open>upload, up to the call of uploadWork\<close>

definition strOr :: "string option \<Rightarrow> string \<Rightarrow> string" where
  "strOr a b = (case a of None \<Rightarrow> b | Some s \<Rightarrow> if s \<noteq> [] then s else b)"

definition optOr :: "'a option \<Rightarrow> 'a option \<Rightarrow> 'a option" where
  "optOr a b = (case a of None \<Rightarrow> b | Some x \<Rightarrow> Some x)"

text \<open>\<^verbatim>\<open>.replace(/^\./, '')\<close>.\<close>

fun stripLeadingDot :: "string \<Rightarrow> string" where
  "stripLeadingDot [] = []"
| "stripLeadingDot (c # cs) = (if c = CHR ''.'' then cs else c # cs)"

text \<open>\<^verbatim>\<open>o.k = v\<close> where \<open>o\<close> is any value (module code is strict): a \<^verbatim>\<open>TypeError\<close> on
  \<^verbatim>\<open>null\<close>, \<^verbatim>\<open>undefined\<close> and the primitives; on an array or a File the property is set
  beside the elements or fields the model keeps.\<close>

fun assignProp :: "jsval \<Rightarrow> string \<Rightarrow> jsval \<Rightarrow> error + jsval" where
  "assignProp (JObj ps) k v = Inr (setProp (JObj ps) k v)"
| "assignProp (JArr xs) k v = Inr (JArr xs)"
| "assignProp (JFile f) k v = Inr (JFile f)"
| "assignProp w k v = Inl TypeError"

datatype uploadDecision = Reject error | NoOp | Start OssUploadIntent

text \<open>The upload parameters: the caller's, then the options', and for the extension the
  file name's at last.\<close>

definition uploadParam ::
  "platform \<Rightarrow> OssOptions \<Rightarrow> File \<Rightarrow> OssUploadParamInner \<Rightarrow> OssUploadParam" where
  "uploadParam pf opts f p =
     (let ext = toLowerCase pf (stripLeadingDot
                  (strOr (fileExtension p) (strOr (fileExtension opts) (getExt (f_name f)))))
      in \<lparr> fileType = optOr (fileType p) (fileType opts),
           subCategory = optOr (subCategory p) (subCategory opts),
           fileExtension = Some ext \<rparr>)"

definition uploadIntent ::
  "platform \<Rightarrow> OssOptions \<Rightarrow> real \<Rightarrow> state \<Rightarrow> File \<Rightarrow> OssUploadParamInner
     \<Rightarrow> state \<times> uploadDecision" where
  "uploadIntent pf opts now st f p =
     (let st1 = cleanTracks pf now (expireTime opts) st;
          param = uploadParam pf opts f p;
          item = getOssItem f param;
          h = getHash pf item;
          cachedTrack = getTrack pf h st1;
          track = newTrack pf now item h param
      in if \<not> nullish cachedTrack then
           (case (if resumeParam p then Inr CacheYes
                  else (case useCache opts of
                          None \<Rightarrow> Inl TypeError
                        | Some policy \<Rightarrow> policy f cachedTrack)) of
              Inl ex \<Rightarrow> (st1, Reject ex)
            | Inr CacheCancel \<Rightarrow> (st1, NoOp)
            | Inr CacheYes \<Rightarrow>
                (case assignProp (getProp cachedTrack ''checkpoint'') ''file'' (JFile f) of
                   Inl ex \<Rightarrow> (st1, Reject ex)
                 | Inr cp \<Rightarrow>
                     (st1, Start \<lparr> tryCount = 0, item = item, ihash = h,
                                   track = setProp cachedTrack ''checkpoint'' cp,
                                   iresume = True \<rparr>))
            | Inr CacheNo \<Rightarrow>
                (st1, Start \<lparr> tryCount = 0, item = item, ihash = h, track = track,
                              iresume = False \<rparr>))
         else (st1, Start \<lparr> tryCount = 0, item = item, ihash = h, track = track,
                            iresume = False \<rparr>))"

subsection \<open>uploadWork, one attempt\<close>

definition jsOfToken :: "OssToken \<Rightarrow> jsval" where
  "jsOfToken t =
     JObj [(''region'', JStr (region t)), (''bucket'', JStr (bucket t)),
           (''stsToken'', JStr (stsToken t)), (''accessKeyId'', JStr (accessKeyId t)),
           (''accessKeySecret'', JStr (accessKeySecret t)), (''fileName'', JStr (fileName t))]"

text \<open>\<^verbatim>\<open>if (tryCount == 0) { ... }\<close>.\<close>

definition uploadWork_begin :: "state \<Rightarrow> File \<Rightarrow> OssUploadIntent \<Rightarrow> state" where
  "uploadWork_begin st f intent =
     (if tryCount intent = 0 then
        (setIsPaused False (emit Begin st))
          \<lparr> hasBegin := True, this_file := Some f, this_hash := Some (ihash intent) \<rparr>
      else st)"

text \<open>\<^verbatim>\<open>new OSS(token)\<close>, the \<^verbatim>\<open>prepare\<close> event and the call of
  \<^verbatim>\<open>client.multipartUpload(fileName, file, {checkpoint, progress})\<close>. The constructor is
  taken to accept the token.\<close>

definition startTransfer :: "state \<Rightarrow> File \<Rightarrow> OssUploadIntent \<Rightarrow> jsval \<Rightarrow> state" where
  "startTransfer st f intent token =
     call (MultipartUpload (getProp (track intent) ''fileName'') f
             (getProp (track intent) ''checkpoint''))
       (emit Prepare (call (NewOSS token) (st\<lparr> this_client := Some token \<rparr>)))"

datatype awaiting = AwaitToken | AwaitTransfer

text \<open>\<^verbatim>\<open>urlJoin(getTokenUrlBase || '', getTokenUrlPath || '')\<close>.\<close>

definition getTokenUrl :: "platform \<Rightarrow> OssOptions \<Rightarrow> string" where
  "getTokenUrl pf opts =
     urlJoin pf (strOr (getTokenUrlBase opts) []) (strOr (getTokenUrlPath opts) [])"

text \<open>The attempt up to its first \<^verbatim>\<open>await\<close>: of \<^verbatim>\<open>getToken\<close>, or of the transfer when
  \<^verbatim>\<open>resume && track.token\<close> is truthy.\<close>

definition uploadWork_enter ::
  "platform \<Rightarrow> OssOptions \<Rightarrow> state \<Rightarrow> File \<Rightarrow> OssUploadIntent \<Rightarrow> state \<times> awaiting" where
  "uploadWork_enter pf opts st f intent =
     (let st1 = uploadWork_begin st f intent;
          cached = getProp (track intent) ''token''
      in if iresume intent \<and> truthy cached then (startTransfer st1 f intent cached, AwaitTransfer)
         else (call (GetToken (getProp (track intent) ''param'') (getTokenUrl pf opts))
                 (emit BeforeGetToken st1), AwaitToken))"

text \<open>\<^verbatim>\<open>track.fileName = ret.fileName; track.token = ret\<close>.\<close>

definition withToken :: "jsval \<Rightarrow> OssToken \<Rightarrow> jsval" where
  "withToken t ret = setProp (setProp t ''fileName'' (JStr (fileName ret))) ''token'' (jsOfToken ret)"

text \<open>After \<^verbatim>\<open>getToken\<close> has resolved with \<open>ret\<close>, up to the call of the transfer.\<close>

definition receiveToken ::
  "platform \<Rightarrow> state \<Rightarrow> File \<Rightarrow> OssUploadIntent \<Rightarrow> OssToken \<Rightarrow> state \<times> OssUploadIntent" where
  "receiveToken pf st f intent ret =
     (let track1 = withToken (track intent) ret;
          intent1 = intent\<lparr> track := track1 \<rparr>;
          st1 = emit (AfterGetToken f ret) (saveTrack pf track1 (ihash intent) st)
      in (startTransfer st1 f intent1 (jsOfToken ret), intent1))"

text \<open>The \<^verbatim>\<open>progress\<close> callback.\<close>

definition onProgress ::
  "platform \<Rightarrow> state \<Rightarrow> File \<Rightarrow> OssUploadIntent \<Rightarrow> real \<times> real \<times> jsval
     \<Rightarrow> state \<times> OssUploadIntent" where
  "onProgress pf st f intent tick =
     (case tick of (now, p, checkpoint) \<Rightarrow>
        (let percent = p * 100;
             st1 = emit (Progress f percent checkpoint) st;
             track1 = setProp (setProp (setProp (track intent) ''percent'' (JNum percent))
                        ''checkpoint'' checkpoint) ''lastTime'' (JNum now)
         in (saveTrack pf track1 (ihash intent) st1, intent\<lparr> track := track1 \<rparr>)))"

datatype workResult = Completed | Cancelled | RetryScheduled OssUploadIntent | Vetoed | Exhausted

definition isCancel :: "error \<Rightarrow> bool" where
  "isCancel ex = (err_status ex = Some 0 \<and> err_name ex = ''cancel'')"

text \<open>The \<^verbatim>\<open>catch\<close> block. \<open>canceled\<close> is what an observer made of
  \<^verbatim>\<open>beforeRetryEvent.canceled\<close>.\<close>

definition uploadWork_catch ::
  "OssOptions \<Rightarrow> bool \<Rightarrow> state \<Rightarrow> File \<Rightarrow> OssUploadIntent \<Rightarrow> error \<Rightarrow> state \<times> workResult" where
  "uploadWork_catch opts canceled st f intent ex =
     (if isCancel ex then (st, Cancelled)
      else
        (let st1 = emit (Fail f ex) st;
             nextTryCount = tryCount intent + 1
         in if nextTryCount \<le> maxTryCount opts then
              (let st2 = emit (BeforeRetry f nextTryCount (maxTryCount opts)) st1
               in if canceled then (end_chain st2, Vetoed)
                  else (call (SetTimeout (retryTimeout opts)) st2,
                        RetryScheduled (intent\<lparr> tryCount := nextTryCount, iresume := False \<rparr>)))
            else (end_chain st1, Exhausted)))"

definition lineTerminator :: "char \<Rightarrow> bool" where
  "lineTerminator c = (c = CHR 0x0A \<or> c = CHR 0x0D)"

text \<open>\<^verbatim>\<open>.replace(/\?uploadId=.*/, '')\<close>: the first \<^verbatim>\<open>?uploadId=\<close> and what follows it on
  its line.\<close>

fun stripUploadId :: "string \<Rightarrow> string" where
  "stripUploadId [] = []"
| "stripUploadId (c # cs) =
     (if startsWith (c # cs) ''?uploadId=''
      then dropWhile (\<lambda>x. \<not> lineTerminator x) (drop 10 (c # cs))
      else c # stripUploadId cs)"

text \<open>\<^verbatim>\<open>(dot(result, 'res.requestUrls[0]') || '').replace(...)\<close>: a truthy value that is
  not a string has no \<^verbatim>\<open>replace\<close>.\<close>

definition resultUrl :: "platform \<Rightarrow> jsval \<Rightarrow> error + string" where
  "resultUrl pf result =
     (let v = dot pf result ''res.requestUrls[0]''
      in if truthy v then (case v of JStr s \<Rightarrow> Inr (stripUploadId s) | _ \<Rightarrow> Inl TypeError)
         else Inr (stripUploadId []))"

text \<open>After the transfer has resolved with \<open>result\<close>.\<close>

definition uploadWork_done ::
  "platform \<Rightarrow> OssOptions \<Rightarrow> bool \<Rightarrow> state \<Rightarrow> File \<Rightarrow> OssUploadIntent \<Rightarrow> jsval
     \<Rightarrow> state \<times> workResult" where
  "uploadWork_done pf opts canceled st f intent result =
     (case resultUrl pf result of
        Inl ex \<Rightarrow> uploadWork_catch opts canceled st f intent ex
      | Inr url \<Rightarrow> (clean (emit (Done f url result) st), Completed))"

definition transferPhase ::
  "platform \<Rightarrow> OssOptions \<Rightarrow> attempt \<Rightarrow> state \<Rightarrow> File \<Rightarrow> OssUploadIntent
     \<Rightarrow> state \<times> workResult" where
  "transferPhase pf opts a st f intent =
     (case fold (\<lambda>tick (s, i). onProgress pf s f i tick) (ticks a) (st, intent) of
        (st1, intent1) \<Rightarrow>
          (case transferResponse a of
             Inl ex \<Rightarrow> uploadWork_catch opts (retryCanceled a) st1 f intent1 ex
           | Inr result \<Rightarrow> uploadWork_done pf opts (retryCanceled a) st1 f intent1 result))"

text \<open>One attempt from its start to its last statement, with nothing else running in
  between.\<close>

definition uploadWork ::
  "platform \<Rightarrow> OssOptions \<Rightarrow> attempt \<Rightarrow> state \<Rightarrow> File \<Rightarrow> OssUploadIntent
     \<Rightarrow> state \<times> workResult" where
  "uploadWork pf opts a st f intent =
     (case uploadWork_enter pf opts st f intent of
        (st1, AwaitTransfer) \<Rightarrow> transferPhase pf opts a st1 f intent
      | (st1, AwaitToken) \<Rightarrow>
          (case tokenResponse a of
             Inl ex \<Rightarrow> uploadWork_catch opts (retryCanceled a) st1 f intent ex
           | Inr ret \<Rightarrow>
               (case receiveToken pf st1 f intent ret of
                  (st2, intent2) \<Rightarrow> transferPhase pf opts a st2 f intent2)))"

subsection \<open>The chain of attempts\<close>

text \<open>The timer set in the \<^verbatim>\<open>catch\<close> block fires and the next attempt runs;
  \<open>world n\<close> is what the collaborators do during the attempt with \<^verbatim>\<open>tryCount\<close>
  \<open>n\<close>. The second component counts the attempts made.\<close>

function uploadChain ::
  "platform \<Rightarrow> OssOptions \<Rightarrow> (nat \<Rightarrow> attempt) \<Rightarrow> state \<Rightarrow> File \<Rightarrow> OssUploadIntent
     \<Rightarrow> state \<times> nat" where
  "uploadChain pf opts world st f intent =
     (case uploadWork pf opts (world (tryCount intent)) st f intent of
        (st1, RetryScheduled nxt) \<Rightarrow>
          (case uploadChain pf opts world st1 f nxt of (st2, n) \<Rightarrow> (st2, Suc n))
      | (st1, _) \<Rightarrow> (st1, 1))"
  by pat_completeness auto
termination
proof (relation "measure (\<lambda>(pf, opts, world, st, f, intent). Suc (maxTryCount opts) - tryCount intent)")
  show "wf (measure (\<lambda>(pf, opts, world, st, f, intent).
            Suc (maxTryCount (opts :: OssOptions)) - tryCount (intent :: OssUploadIntent)))"
    by simp
next
  fix pf :: platform and opts :: OssOptions and world :: "nat \<Rightarrow> attempt" and st :: state
    and f :: File and intent :: OssUploadIntent and st1 :: state and r :: workResult
    and nxt :: OssUploadIntent
  assume x: "(st1, r) = uploadWork pf opts (world (tryCount intent)) st f intent"
    and n: "r = RetryScheduled nxt"
  have caught: "\<And>c s i ex s' nx. uploadWork_catch opts c s f i ex = (s', RetryScheduled nx)
      \<Longrightarrow> tryCount nx = Suc (tryCount i) \<and> Suc (tryCount i) \<le> maxTryCount opts"
    by (auto simp: uploadWork_catch_def Let_def split: if_splits)
  have folded: "\<And>ts s i s' i'. fold (\<lambda>tick (s, i). onProgress pf s f i tick) ts (s, i) = (s', i')
      \<Longrightarrow> tryCount i' = tryCount i"
  proof -
    fix ts s i s' i'
    show "fold (\<lambda>tick (s, i). onProgress pf s f i tick) ts (s, i) = (s', i')
      \<Longrightarrow> tryCount i' = tryCount i"
      by (induction ts arbitrary: s i) (auto simp: onProgress_def Let_def split: prod.splits)
  qed
  have phase: "\<And>a s i s' nx. transferPhase pf opts a s f i = (s', RetryScheduled nx)
      \<Longrightarrow> tryCount nx = Suc (tryCount i) \<and> Suc (tryCount i) \<le> maxTryCount opts"
    by (auto simp: transferPhase_def uploadWork_done_def
        split: prod.splits sum.splits dest!: caught folded)
  from x n have "uploadWork pf opts (world (tryCount intent)) st f intent
      = (st1, RetryScheduled nxt)" by simp
  then have "tryCount nxt = Suc (tryCount intent) \<and> Suc (tryCount intent) \<le> maxTryCount opts"
    by (auto simp: uploadWork_def receiveToken_def Let_def
        split: prod.splits awaiting.splits sum.splits dest!: caught phase)
  then show "((pf, opts, world, st1, f, nxt), (pf, opts, world, st, f, intent))
      \<in> measure (\<lambda>(pf, opts, world, st, f, intent). Suc (maxTryCount opts) - tryCount intent)"
    by (simp, arith)
qed

datatype promise = Resolved | Rejected error

text \<open>\<^verbatim>\<open>upload(file, param)\<close> and the chain of attempts it starts, run to its end.\<close>

definition upload ::
  "platform \<Rightarrow> OssOptions \<Rightarrow> (nat \<Rightarrow> attempt) \<Rightarrow> real \<Rightarrow> state \<Rightarrow> File \<Rightarrow> OssUploadParamInner
     \<Rightarrow> state \<times> promise" where
  "upload pf opts world now st f p =
     (case uploadIntent pf opts now st f p of
        (st1, Reject ex) \<Rightarrow> (st1, Rejected ex)
      | (st1, NoOp) \<Rightarrow> (st1, Resolved)
      | (st1, Start intent) \<Rightarrow> (fst (uploadChain pf opts world st1 f intent), Resolved))"

text \<open>\<^verbatim>\<open>upload(file, param)\<close> up to the first \<^verbatim>\<open>await\<close> of \<^verbatim>\<open>uploadWork\<close>: what a
  caller that does not wait for the promise has run when the call returns.\<close>

definition upload_enter ::
  "platform \<Rightarrow> OssOptions \<Rightarrow> real \<Rightarrow> state \<Rightarrow> File \<Rightarrow> OssUploadParamInner \<Rightarrow> state" where
  "upload_enter pf opts now st f p =
     (case uploadIntent pf opts now st f p of
        (st1, Start intent) \<Rightarrow> fst (uploadWork_enter pf opts st1 f intent)
      | (st1, _) \<Rightarrow> st1)"

text \<open>\<^verbatim>\<open>resume()\<close> calls \<^verbatim>\<open>this.upload(this.file!, { resume: true })\<close> and does not wait.
  Without a remembered file the call throws at \<^verbatim>\<open>file.name\<close>, after the sweep.\<close>

definition resume :: "platform \<Rightarrow> OssOptions \<Rightarrow> real \<Rightarrow> state \<Rightarrow> state" where
  "resume pf opts now st =
     (if isPausedInner st then
        (case this_file st of
           None \<Rightarrow> cleanTracks pf now (expireTime opts) st
         | Some f \<Rightarrow>
             upload_enter pf opts now st f
               \<lparr> fileType = None, subCategory = None, fileExtension = None, resumeParam = True \<rparr>)
      else st)"

section \<open>What a run of the uploader can reach\<close>

text \<open>The asynchronous pieces of the uploader run one at a time, in any order the
  callers, the collaborators and the timers bring about: a call of \<^verbatim>\<open>upload\<close> (as a
  whole, or its sweep alone when it then waits for the resume policy and goes on as
  \<open>r_timer\<close> has it), \<^verbatim>\<open>pause\<close>, \<^verbatim>\<open>resume\<close> or \<^verbatim>\<open>stop\<close>, a timer that starts the
  next attempt, and each continuation of an attempt after an \<^verbatim>\<open>await\<close> or inside the
  progress callback. Intents, tokens, results and errors are arbitrary, so the relation
  holds of every state a real run passes through.\<close>

inductive reachable :: "platform \<Rightarrow> OssOptions \<Rightarrow> state \<Rightarrow> bool"
  for pf :: platform and opts :: OssOptions where
  r_new: "reachable pf opts (initial\<lparr> localStorage := ls \<rparr>)"
| r_sweep: "reachable pf opts st \<Longrightarrow> reachable pf opts (cleanTracks pf now (expireTime opts) st)"
| r_upload: "reachable pf opts st \<Longrightarrow> reachable pf opts (upload_enter pf opts now st f p)"
| r_pause: "reachable pf opts st \<Longrightarrow> reachable pf opts (pause st)"
| r_resume: "reachable pf opts st \<Longrightarrow> reachable pf opts (resume pf opts now st)"
| r_stop: "reachable pf opts st \<Longrightarrow> reachable pf opts (stop st)"
| r_timer: "reachable pf opts st \<Longrightarrow> reachable pf opts (fst (uploadWork_enter pf opts st f intent))"
| r_token: "reachable pf opts st \<Longrightarrow> reachable pf opts (fst (receiveToken pf st f intent ret))"
| r_progress: "reachable pf opts st \<Longrightarrow> reachable pf opts (fst (onProgress pf st f intent tick))"
| r_done:
    "reachable pf opts st \<Longrightarrow> reachable pf opts (fst (uploadWork_done pf opts c st f intent result))"
| r_catch: "reachable pf opts st \<Longrightarrow> reachable pf opts (fst (uploadWork_catch opts c st f intent ex))"

section \<open>Reading a trace\<close>

fun events :: "effect list \<Rightarrow> event list" where
  "events [] = []"
| "events (Emit e # tr) = e # events tr"
| "events (_ # tr) = events tr"

text \<open>The values the \<^verbatim>\<open>isPausedChanged\<close> events of a trace carry, in order.\<close>

fun pausedFlags :: "effect list \<Rightarrow> bool list" where
  "pausedFlags [] = []"
| "pausedFlags (Emit (IsPausedChanged b) # tr) = b # pausedFlags tr"
| "pausedFlags (_ # tr) = pausedFlags tr"

text \<open>Each value differs from the one before it, the first from \<open>cur\<close>.\<close>

fun alternating :: "bool \<Rightarrow> bool list \<Rightarrow> bool" where
  "alternating cur [] = True"
| "alternating cur (b # bs) = (b \<noteq> cur \<and> alternating b bs)"

fun isSetTimeout :: "effect \<Rightarrow> bool" where
  "isSetTimeout (SetTimeout d) = True"
| "isSetTimeout _ = False"

fun isRemoveItem :: "effect \<Rightarrow> bool" where
  "isRemoveItem (RemoveItem k) = True"
| "isRemoveItem _ = False"

fun isEmit :: "effect \<Rightarrow> bool" where
  "isEmit (Emit e) = True"
| "isEmit _ = False"

text \<open>Effects of acquiring a token.\<close>

fun isTokenEffect :: "effect \<Rightarrow> bool" where
  "isTokenEffect (GetToken p u) = True"
| "isTokenEffect (Emit BeforeGetToken) = True"
| "isTokenEffect (Emit (AfterGetToken f t)) = True"
| "isTokenEffect _ = False"

text \<open>Effects a silent end of an attempt does not have: a \<^verbatim>\<open>fail\<close>, \<^verbatim>\<open>beforeRetry\<close> or
  \<^verbatim>\<open>end\<close> event, a timer, a removal from the store.\<close>

fun isLoud :: "effect \<Rightarrow> bool" where
  "isLoud (Emit (Fail f ex)) = True"
| "isLoud (Emit (BeforeRetry f n m)) = True"
| "isLoud (Emit End) = True"
| "isLoud (SetTimeout d) = True"
| "isLoud (RemoveItem k) = True"
| "isLoud _ = False"

text \<open>Every effect but an \<^verbatim>\<open>isPausedChanged\<close> event.\<close>

fun noFlag :: "effect \<Rightarrow> bool" where
  "noFlag (Emit (IsPausedChanged b)) = False"
| "noFlag _ = True"

text \<open>The \<^verbatim>\<open>isPausedChanged\<close> events of the trace alternate, starting with \<^verbatim>\<open>true\<close>, and
  the last one carries the current value of the flag.\<close>

definition flagsOK :: "state \<Rightarrow> bool" where
  "flagsOK st =
     (alternating False (pausedFlags (trace st)) \<and>
      last (False # pausedFlags (trace st)) = isPausedInner st)"

text \<open>What the \<^verbatim>\<open>catch\<close> block can add to the trace, and what an attempt can add once
  its transfer has been started.\<close>

fun isCatchEffect :: "effect \<Rightarrow> bool" where
  "isCatchEffect (Emit (Fail f ex)) = True"
| "isCatchEffect (Emit (BeforeRetry f n m)) = True"
| "isCatchEffect (Emit End) = True"
| "isCatchEffect (SetTimeout d) = True"
| "isCatchEffect _ = False"

fun isOutcomeEffect :: "effect \<Rightarrow> bool" where
  "isOutcomeEffect (Emit (Progress f p c)) = True"
| "isOutcomeEffect (SetItem k v) = True"
| "isOutcomeEffect (Emit (Done f u r)) = True"
| "isOutcomeEffect (RemoveItem k) = True"
| "isOutcomeEffect e = isCatchEffect e"

text \<open>From \<open>st\<close> to \<open>s\<close> the uploader has kept its remembered file and fingerprint
  and its two flags, has removed nothing from the store, and has added to the trace
  nothing loud and no \<^verbatim>\<open>isPausedChanged\<close> event.\<close>

definition quietly :: "state \<Rightarrow> state \<Rightarrow> bool" where
  "quietly st s =
     (this_file s = this_file st \<and> this_hash s = this_hash st \<and> hasBegin s = hasBegin st \<and>
      isPausedInner s = isPausedInner st \<and> dom (getItem st) \<subseteq> dom (getItem s) \<and>
      (\<exists>tr. trace s = trace st @ tr \<and> \<not> list_ex isLoud tr \<and> pausedFlags tr = []))"

text \<open>What an attempt throws inside its \<^verbatim>\<open>try\<close> block, if anything: the rejection of
  the token provider when it is asked, else that of the transfer, else the
  \<^verbatim>\<open>TypeError\<close> of a result without a usable URL.\<close>

definition transferError :: "platform \<Rightarrow> attempt \<Rightarrow> error option" where
  "transferError pf a =
     (case transferResponse a of
        Inl ex \<Rightarrow> Some ex
      | Inr res \<Rightarrow> (case resultUrl pf res of Inl ex \<Rightarrow> Some ex | Inr url \<Rightarrow> None))"

definition attemptError :: "platform \<Rightarrow> attempt \<Rightarrow> OssUploadIntent \<Rightarrow> error option" where
  "attemptError pf a i =
     (if iresume i \<and> truthy (getProp (track i) ''token'') then transferError pf a
      else (case tokenResponse a of Inl ex \<Rightarrow> Some ex | Inr ret \<Rightarrow> transferError pf a))"

text \<open>The hypothesis of the retry bound: the token provider resolves or rejects with
  something that is not a cancellation, the transfer rejects with something that is not
  a cancellation, and no observer cancels \<^verbatim>\<open>beforeRetry\<close>.\<close>

definition attemptFails :: "attempt \<Rightarrow> bool" where
  "attemptFails a =
     ((case tokenResponse a of Inl ex \<Rightarrow> \<not> isCancel ex | Inr t \<Rightarrow> True) \<and>
      (case transferResponse a of Inl ex \<Rightarrow> \<not> isCancel ex | Inr r \<Rightarrow> False) \<and>
      \<not> retryCanceled a)"

text \<open>From \<open>st\<close> to \<open>s\<close> the trace has grown by effects that all satisfy \<open>P\<close>.\<close>

definition adds :: "(effect \<Rightarrow> bool) \<Rightarrow> state \<Rightarrow> state \<Rightarrow> bool" where
  "adds P st s =
     (take (length (trace st)) (trace s) = trace st \<and>
      list_all P (drop (length (trace st)) (trace s)))"





section \<open>The expiry sweep as the specification words it\<close>



section \<open>A concrete world\<close>

text \<open>One file, one token, and a platform whose \<^verbatim>\<open>JSON.parse\<close> knows four texts: a
  record last updated at time 1, one last updated at time 950, one whose \<^verbatim>\<open>lastTime\<close> is
  \<^verbatim>\<open>true\<close>, and the Track of
  \<open>demoFile\<close> as the uploader saves it once it has a token and before the transfer has
  reported progress.\<close>

definition demoFile :: File where
  "demoFile =
     \<lparr> f_name = ''a.png'', f_size = 10, f_type = ''image/png'', f_lastModified = 5,
       f_blob = 1 \<rparr>"

definition demoToken :: OssToken where
  "demoToken =
     \<lparr> region = ''r'', bucket = ''b'', stsToken = ''s'', accessKeyId = ''k'',
       accessKeySecret = ''x'', fileName = ''remote.png'' \<rparr>"

definition demoSavedTrack :: jsval where
  "demoSavedTrack =
     JObj [(''fileType'', JNum 1), (''subCategory'', JNum 1), (''fileExtension'', JStr ''png''),
           (''name'', JStr ''a.png''), (''size'', JNum 10), (''type'', JStr ''image/png''),
           (''lastModified'', JNum 5), (''fileName'', JStr ''remote.png''),
           (''percent'', JNum 0), (''checkpoint'', JNull), (''lastTime'', JNum 990),
           (''param'', JObj [(''fileType'', JNum 1), (''subCategory'', JNum 1),
                             (''fileExtension'', JStr ''png'')]),
           (''token'', jsOfToken demoToken)]"

definition demoParse :: "string \<Rightarrow> jsval option" where
  "demoParse s =
     (if s = ''old'' then Some (JObj [(''lastTime'', JNum 1)])
      else if s = ''fresh'' then Some (JObj [(''lastTime'', JNum 950)])
      else if s = ''saved'' then Some demoSavedTrack
      else if s = ''flag'' then Some (JObj [(''lastTime'', JBool True)])
      else None)"

definition demoStringify :: "jsval \<Rightarrow> string" where
  "demoStringify v = (if v = demoSavedTrack then ''saved'' else ''json'')"

definition demoPlatform :: platform where
  "demoPlatform =
     \<lparr> JSON_parse = demoParse,
       JSON_stringify = demoStringify,
       md5 = (\<lambda>s. ''h''),
       StringToNumber = (\<lambda>s. None),
       NumberToString = (\<lambda>n. ''n''),
       toLowerCase = (\<lambda>s. s),
       stringRandom = (\<lambda>a b. a @ b),
       dot = getProp,
       urlJoin = (\<lambda>a b. a @ b) \<rparr>"

definition demoOptions :: OssOptions where
  "demoOptions =
     \<lparr> fileType = Some FileType_misc, subCategory = Some SubCategory_misc,
       fileExtension = None,
       getTokenUrlBase = Some ''https://fapi'', getTokenUrlPath = Some ''/token'',
       maxTryCount = 3, retryTimeout = 3000, expireTime = 100, useCache = None \<rparr>"

definition demoResult :: jsval where
  "demoResult = JObj [(''res.requestUrls[0]'', JStr ''http://oss/remote.png?uploadId=7'')]"

definition demoSuccess :: attempt where
  "demoSuccess =
     \<lparr> tokenResponse = Inr demoToken, ticks = [(995, 1, JObj [])],
       transferResponse = Inr demoResult, retryCanceled = False \<rparr>"

definition demoError :: error where
  "demoError = Error (Some 500) ''ServerError''"

definition demoFailure :: attempt where
  "demoFailure =
     \<lparr> tokenResponse = Inr demoToken, ticks = [],
       transferResponse = Inl demoError, retryCanceled = False \<rparr>"

text \<open>The transfer fails twice and succeeds at the third attempt.\<close>

definition demoWorld :: "nat \<Rightarrow> attempt" where
  "demoWorld n = (if n < 2 then demoFailure else demoSuccess)"

definition plainParam :: OssUploadParamInner where
  "plainParam =
     \<lparr> fileType = None, subCategory = None, fileExtension = None, resumeParam = False \<rparr>"

definition resumeParamTrue :: OssUploadParamInner where
  "resumeParamTrue =
     \<lparr> fileType = None, subCategory = None, fileExtension = None, resumeParam = True \<rparr>"

text \<open>A new uploader over a store that holds the saved Track of \<open>demoFile\<close>.\<close>

definition demoStored :: state where
  "demoStored = initial\<lparr> localStorage := [(''@ossuploadtrackh'', ''saved'')] \<rparr>"


definition demoCancel :: error where
  "demoCancel = Error (Some 0) ''cancel''"

text \<open>The transfer is cancelled (as \<^verbatim>\<open>pause\<close> makes the client do) before it has reported
  progress.\<close>

definition demoCancelled :: attempt where
  "demoCancelled =
     \<lparr> tokenResponse = Inr demoToken, ticks = [],
       transferResponse = Inl demoCancel, retryCanceled = False \<rparr>"

definition demoResumeIntent :: OssUploadIntent where
  "demoResumeIntent =
     \<lparr> tryCount = 0, item = JObj [], ihash = ''h'', track = demoSavedTrack, iresume = True \<rparr>"

definition demoAlwaysFails :: "nat \<Rightarrow> attempt" where
  "demoAlwaysFails n = demoFailure"

definition demoIntent :: OssUploadIntent where
  "demoIntent = \<lparr> tryCount = 0, item = JObj [], ihash = ''h'', track = JObj [], iresume = False \<rparr>"

text \<open>The intent \<^verbatim>\<open>upload(demoFile)\<close> starts on a new uploader at time 990, and the
  uploader after that call, the token provider's answer and a call of \<^verbatim>\<open>pause\<close> before
  the transfer has reported progress.\<close>

definition demoStart :: OssUploadIntent where
  "demoStart =
     (case uploadIntent demoPlatform demoOptions 990 initial demoFile plainParam of
        (st, Start i) \<Rightarrow> i
      | _ \<Rightarrow> demoIntent)"

definition demoPaused :: state where
  "demoPaused =
     pause (fst (receiveToken demoPlatform
                   (upload_enter demoPlatform demoOptions 990 initial demoFile plainParam)
                   demoFile demoStart demoToken))"

text \<open>A resume policy that always answers \<^verbatim>\<open>cancel\<close>.\<close>

definition demoCancelPolicy :: "File \<Rightarrow> jsval \<Rightarrow> error + cacheResult" where
  "demoCancelPolicy f t = Inr CacheCancel"

definition demoPolicyOptions :: OssOptions where
  "demoPolicyOptions = demoOptions\<lparr> useCache := Some demoCancelPolicy \<rparr>"

section \<open>Theorems\<close>

subsection \<open>One attempt\<close>

lemmas st_defs = emit_def call_def setItem_def removeItem_def saveTrack_def delTrack_def
  setIsPaused_def end_chain_def clean_def getItem_def

lemma pausedFlags_append: "pausedFlags (xs @ ys) = pausedFlags xs @ pausedFlags ys"
  by (induction xs rule: pausedFlags.induct) auto

lemma quietly_refl: "quietly st st"
  by (simp add: quietly_def)

lemma quietly_trans:
  assumes "quietly a b" and "quietly b c"
  shows "quietly a c"
proof -
  from assms(1) obtain tr1 where 1: "trace b = trace a @ tr1" "\<not> list_ex isLoud tr1"
    "pausedFlags tr1 = []"
    unfolding quietly_def by blast
  from assms(2) obtain tr2 where 2: "trace c = trace b @ tr2" "\<not> list_ex isLoud tr2"
    "pausedFlags tr2 = []"
    unfolding quietly_def by blast
  have "trace c = trace a @ (tr1 @ tr2) \<and> \<not> list_ex isLoud (tr1 @ tr2)
      \<and> pausedFlags (tr1 @ tr2) = []"
    using 1 2 by (simp add: pausedFlags_append)
  then have "\<exists>tr. trace c = trace a @ tr \<and> \<not> list_ex isLoud tr \<and> pausedFlags tr = []" ..
  moreover have "dom (getItem a) \<subseteq> dom (getItem c)"
    using assms unfolding quietly_def by blast
  ultimately show ?thesis
    using assms unfolding quietly_def by simp
qed

lemma quietly_append:
  "this_file s = this_file st \<Longrightarrow> this_hash s = this_hash st \<Longrightarrow> hasBegin s = hasBegin st \<Longrightarrow>
   isPausedInner s = isPausedInner st \<Longrightarrow> dom (getItem st) \<subseteq> dom (getItem s) \<Longrightarrow>
   trace s = trace st @ tr \<Longrightarrow> \<not> list_ex isLoud tr \<Longrightarrow> pausedFlags tr = [] \<Longrightarrow> quietly st s"
  unfolding quietly_def by blast

lemma startTransfer_quietly: "quietly st (startTransfer st f i tok)"
  by (rule quietly_append [where tr = "[NewOSS tok, Emit Prepare,
        MultipartUpload (getProp (track i) ''fileName'') f (getProp (track i) ''checkpoint'')]"])
    (auto simp: startTransfer_def st_defs)

lemma onProgress_quietly:
  "onProgress pf st f i tick = (st', i') \<Longrightarrow> quietly st st' \<and> i' = i\<lparr> track := track i' \<rparr>"
proof -
  assume a: "onProgress pf st f i tick = (st', i')"
  obtain now p cp where t: "tick = (now, p, cp)" by (cases tick)
  have "quietly st st'"
    by (rule quietly_append [where tr = "[Emit (Progress f (p * 100) cp),
        SetItem (storageKeyPrefix @ ihash i) (JSON_stringify pf (track i'))]"])
      (use a t in \<open>auto simp: onProgress_def st_defs Let_def update_conv'\<close>)
  moreover have "i' = i\<lparr> track := track i' \<rparr>"
    using a t by (auto simp: onProgress_def Let_def)
  ultimately show ?thesis ..
qed

lemma ticks_quietly:
  "fold (\<lambda>tick (s, i). onProgress pf s f i tick) ts (st, i) = (st', i') \<Longrightarrow>
     quietly st st' \<and> i' = i\<lparr> track := track i' \<rparr>"
proof (induction ts arbitrary: st i)
  case Nil
  then show ?case by (simp add: quietly_refl)
next
  case (Cons tick ts)
  obtain s1 i1 where step: "onProgress pf st f i tick = (s1, i1)"
    by (cases "onProgress pf st f i tick")
  with Cons.prems have rest: "fold (\<lambda>tick (s, i). onProgress pf s f i tick) ts (s1, i1) = (st', i')"
    by simp
  from onProgress_quietly [OF step] Cons.IH [OF rest] have
    q: "quietly st s1" "quietly s1 st'" and i: "i1 = i\<lparr> track := track i1 \<rparr>"
      "i' = i1\<lparr> track := track i' \<rparr>"
    by simp_all
  from i have "i' = i\<lparr> track := track i' \<rparr>"
    by (metis OssUploadIntent.surjective OssUploadIntent.update_convs(4))
  with quietly_trans [OF q] show ?case by simp
qed


lemma sameIntent_trans:
  "i1 = i\<lparr> track := track i1 \<rparr> \<Longrightarrow> i2 = i1\<lparr> track := track i2 \<rparr> \<Longrightarrow> i2 = i\<lparr> track := track i2 \<rparr>"
  by (metis OssUploadIntent.surjective OssUploadIntent.update_convs(4))

lemma transferPhase_cases [case_names caught completed]:
  obtains (caught) s_c i_c ex where "quietly st s_c" "i_c = i\<lparr> track := track i_c \<rparr>"
      "transferError pf a = Some ex"
      "transferPhase pf opts a st f i = uploadWork_catch opts (retryCanceled a) s_c f i_c ex"
  | (completed) s_c i_c res url where "quietly st s_c" "i_c = i\<lparr> track := track i_c \<rparr>"
      "transferResponse a = Inr res" "resultUrl pf res = Inr url" "transferError pf a = None"
      "transferPhase pf opts a st f i = (clean (emit (Done f url res) s_c), Completed)"
proof -
  obtain s1 i1 where fd: "fold (\<lambda>tick (s, i). onProgress pf s f i tick) (ticks a) (st, i) = (s1, i1)"
    by (cases "fold (\<lambda>tick (s, i). onProgress pf s f i tick) (ticks a) (st, i)")
  from ticks_quietly [OF fd] have fr: "quietly st s1" "i1 = i\<lparr> track := track i1 \<rparr>"
    by simp_all
  show ?thesis
  proof (cases "transferResponse a")
    case (Inl ex)
    then have "transferPhase pf opts a st f i = uploadWork_catch opts (retryCanceled a) s1 f i1 ex"
      by (simp add: transferPhase_def fd)
    with fr Inl show ?thesis by (intro caught [of s1 i1 ex]) (simp_all add: transferError_def)
  next
    case (Inr res)
    show ?thesis
    proof (cases "resultUrl pf res")
      case (Inl ex)
      with Inr have "transferPhase pf opts a st f i = uploadWork_catch opts (retryCanceled a) s1 f i1 ex"
        by (simp add: transferPhase_def fd uploadWork_done_def)
      with fr Inr Inl show ?thesis by (intro caught [of s1 i1 ex]) (simp_all add: transferError_def)
    next
      case url: (Inr url)
      with Inr have "transferPhase pf opts a st f i = (clean (emit (Done f url res) s1), Completed)"
        by (simp add: transferPhase_def fd uploadWork_done_def)
      with fr Inr url show ?thesis
        by (intro completed [of s1 i1 res url]) (simp_all add: transferError_def)
    qed
  qed
qed

lemma begin_fields:
  "hasBegin (uploadWork_begin st f i) = (hasBegin st \<or> tryCount i = 0)"
  "this_hash (uploadWork_begin st f i) = (if tryCount i = 0 then Some (ihash i) else this_hash st)"
  "this_file (uploadWork_begin st f i) = (if tryCount i = 0 then Some f else this_file st)"
  "isPausedInner (uploadWork_begin st f i) = (isPausedInner st \<and> tryCount i \<noteq> 0)"
  "localStorage (uploadWork_begin st f i) = localStorage st"
  "this_client (uploadWork_begin st f i) = this_client st"
  "trace (uploadWork_begin st f i) =
     trace st @ (if tryCount i = 0
                 then Emit Begin # (if isPausedInner st then [Emit (IsPausedChanged False)] else [])
                 else [])"
  by (auto simp: uploadWork_begin_def st_defs)

lemma enter_quietly:
  "uploadWork_enter pf opts st f i = (s1, w) \<Longrightarrow>
     quietly (uploadWork_begin st f i) s1 \<and>
     (w = AwaitTransfer \<longleftrightarrow> iresume i \<and> truthy (getProp (track i) ''token''))"
proof -
  assume a: "uploadWork_enter pf opts st f i = (s1, w)"
  show ?thesis
  proof (cases "iresume i \<and> truthy (getProp (track i) ''token'')")
    case True
    with a have "s1 = startTransfer (uploadWork_begin st f i) f i (getProp (track i) ''token'')"
      "w = AwaitTransfer"
      by (auto simp: uploadWork_enter_def Let_def)
    with True show ?thesis by (simp add: startTransfer_quietly)
  next
    case False
    let ?url = "getTokenUrl pf opts"
    from False a have s1: "s1 = call (GetToken (getProp (track i) ''param'') ?url)
        (emit BeforeGetToken (uploadWork_begin st f i))" and w: "w = AwaitToken"
      by (auto simp: uploadWork_enter_def Let_def)
    have "quietly (uploadWork_begin st f i) s1"
      by (rule quietly_append [where tr = "[Emit BeforeGetToken,
            GetToken (getProp (track i) ''param'') ?url]"])
        (auto simp: s1 st_defs)
    with False w show ?thesis by simp
  qed
qed

lemma receiveToken_quietly:
  "receiveToken pf st f i ret = (s2, i2) \<Longrightarrow> quietly st s2 \<and> i2 = i\<lparr> track := track i2 \<rparr>"
proof -
  assume a: "receiveToken pf st f i ret = (s2, i2)"
  have "quietly st s2"
    by (rule quietly_append [where tr = "[SetItem (storageKeyPrefix @ ihash i)
            (JSON_stringify pf (track i2)), Emit (AfterGetToken f ret), NewOSS (jsOfToken ret),
            Emit Prepare, MultipartUpload (getProp (track i2) ''fileName'') f
              (getProp (track i2) ''checkpoint'')]"])
      (use a in \<open>auto simp: receiveToken_def startTransfer_def st_defs Let_def update_conv'\<close>)
  moreover have "i2 = i\<lparr> track := track i2 \<rparr>"
    using a by (auto simp: receiveToken_def Let_def)
  ultimately show ?thesis ..
qed

lemma uploadWork_cases [case_names caught completed]:
  obtains (caught) s_c i_c ex where "quietly (uploadWork_begin st f i) s_c"
      "i_c = i\<lparr> track := track i_c \<rparr>" "attemptError pf a i = Some ex"
      "uploadWork pf opts a st f i = uploadWork_catch opts (retryCanceled a) s_c f i_c ex"
  | (completed) s_c i_c res url where "quietly (uploadWork_begin st f i) s_c"
      "i_c = i\<lparr> track := track i_c \<rparr>" "transferResponse a = Inr res"
      "resultUrl pf res = Inr url" "attemptError pf a i = None"
      "uploadWork pf opts a st f i = (clean (emit (Done f url res) s_c), Completed)"
proof -
  obtain s1 w where en: "uploadWork_enter pf opts st f i = (s1, w)"
    by (cases "uploadWork_enter pf opts st f i")
  from enter_quietly [OF en] have e1: "quietly (uploadWork_begin st f i) s1"
    and w: "w = AwaitTransfer \<longleftrightarrow> iresume i \<and> truthy (getProp (track i) ''token'')"
    by simp_all
  have transfer: thesis
    if q: "quietly (uploadWork_begin st f i) s2" and i2: "i2 = i\<lparr> track := track i2 \<rparr>"
      and u: "uploadWork pf opts a st f i = transferPhase pf opts a s2 f i2"
      and e: "attemptError pf a i = transferError pf a" for s2 i2
  proof (cases rule: transferPhase_cases [of s2 i2 pf a opts f])
    case c: (caught s_c i_c ex)
    have "attemptError pf a i = Some ex" using c(3) e by simp
    then show ?thesis
      using caught [of s_c i_c ex] quietly_trans [OF q c(1)]
        sameIntent_trans [OF i2 c(2)] c(4) u by simp
  next
    case c: (completed s_c i_c res url)
    then show ?thesis
      using completed [of s_c i_c res url] quietly_trans [OF q c(1)]
        sameIntent_trans [OF i2 c(2)] u e by simp
  qed
  show ?thesis
  proof (cases w)
    case AwaitTransfer
    then have "uploadWork pf opts a st f i = transferPhase pf opts a s1 f i"
      by (simp add: uploadWork_def en)
    moreover have "attemptError pf a i = transferError pf a"
      using AwaitTransfer w by (simp add: attemptError_def)
    ultimately show ?thesis using transfer [of s1 i] e1 by simp
  next
    case AwaitToken
    show ?thesis
    proof (cases "tokenResponse a")
      case (Inl ex)
      with AwaitToken have "uploadWork pf opts a st f i = uploadWork_catch opts (retryCanceled a) s1 f i ex"
        by (simp add: uploadWork_def en)
      moreover have "attemptError pf a i = Some ex"
        using Inl AwaitToken w by (auto simp: attemptError_def)
      ultimately show ?thesis using e1 by (intro caught [of s1 i ex]) simp_all
    next
      case (Inr ret)
      obtain s2 i2 where rt: "receiveToken pf s1 f i ret = (s2, i2)"
        by (cases "receiveToken pf s1 f i ret")
      with Inr AwaitToken have u: "uploadWork pf opts a st f i = transferPhase pf opts a s2 f i2"
        by (simp add: uploadWork_def en)
      from receiveToken_quietly [OF rt] have "quietly s1 s2" "i2 = i\<lparr> track := track i2 \<rparr>"
        by simp_all
      moreover have "attemptError pf a i = transferError pf a"
        using Inr AwaitToken w by (auto simp: attemptError_def)
      ultimately show ?thesis using transfer [of s2 i2] quietly_trans [OF e1] u by simp
    qed
  qed
qed

subsection \<open>The retry bound\<close>

declare uploadChain.simps [simp del]

lemma catch_cancel: "isCancel ex \<Longrightarrow> uploadWork_catch opts c st f i ex = (st, Cancelled)"
  by (simp add: uploadWork_catch_def)

lemma catch_retry:
  "\<not> isCancel ex \<Longrightarrow> Suc (tryCount i) \<le> maxTryCount opts \<Longrightarrow> \<not> c \<Longrightarrow>
   uploadWork_catch opts c st f i ex =
     (st\<lparr> trace := trace st @ [Emit (Fail f ex),
          Emit (BeforeRetry f (Suc (tryCount i)) (maxTryCount opts)),
          SetTimeout (retryTimeout opts)] \<rparr>,
      RetryScheduled (i\<lparr> tryCount := Suc (tryCount i), iresume := False \<rparr>))"
  by (simp add: uploadWork_catch_def st_defs Let_def)

lemma catch_exhausted:
  "\<not> isCancel ex \<Longrightarrow> \<not> Suc (tryCount i) \<le> maxTryCount opts \<Longrightarrow> hasBegin st \<Longrightarrow>
   uploadWork_catch opts c st f i ex =
     (st\<lparr> hasBegin := False, trace := trace st @ [Emit (Fail f ex), Emit End] \<rparr>, Exhausted)"
  by (simp add: uploadWork_catch_def st_defs Let_def)

lemma quiet_no_timeout: "\<not> list_ex isLoud tr \<Longrightarrow> filter isSetTimeout tr = []"
  by (induction tr) (auto elim: isSetTimeout.elims)

lemma failing_attempt:
  assumes "attemptFails a"
  obtains s_c i_c ex tr where "trace s_c = trace st @ tr" "filter isSetTimeout tr = []"
    "hasBegin s_c = (hasBegin st \<or> tryCount i = 0)" "tryCount i_c = tryCount i"
    "\<not> isCancel ex"
    "uploadWork pf opts a st f i = uploadWork_catch opts False s_c f i_c ex"
proof (cases rule: uploadWork_cases [of st f i pf a opts])
  case c: (caught s_c i_c ex)
  from c(1) obtain tr where tr: "trace s_c = trace (uploadWork_begin st f i) @ tr"
    "\<not> list_ex isLoud tr" and hb: "hasBegin s_c = hasBegin (uploadWork_begin st f i)"
    unfolding quietly_def by blast
  let ?b = "if tryCount i = 0
            then Emit Begin # (if isPausedInner st then [Emit (IsPausedChanged False)] else [])
            else []"
  have "trace s_c = trace st @ (?b @ tr)"
    using tr(1) by (simp add: begin_fields)
  moreover have "filter isSetTimeout (?b @ tr) = []"
    using quiet_no_timeout [OF tr(2)] by simp
  moreover have "hasBegin s_c = (hasBegin st \<or> tryCount i = 0)"
    using hb by (simp add: begin_fields)
  moreover have "tryCount i_c = tryCount i"
    using c(2) by (metis OssUploadIntent.select_convs(1) OssUploadIntent.surjective OssUploadIntent.update_convs(4))
  moreover have "\<not> isCancel ex"
    using c(3) assms
    by (auto simp: attemptError_def transferError_def attemptFails_def split: sum.splits if_splits)
  moreover have "uploadWork pf opts a st f i = uploadWork_catch opts False s_c f i_c ex"
    using c(4) assms by (simp add: attemptFails_def)
  ultimately show ?thesis by (rule that)
next
  case (completed s_c i_c res url)
  with assms show ?thesis by (simp add: attemptFails_def)
qed

lemma failing_chain:
  assumes "\<forall>n\<le>maxTryCount opts. attemptFails (world n)"
  shows "tryCount i \<le> maxTryCount opts \<Longrightarrow> hasBegin st \<or> tryCount i = 0 \<Longrightarrow>
     snd (uploadChain pf opts world st f i) = Suc (maxTryCount opts) - tryCount i \<and>
     (\<exists>tr ex. trace (fst (uploadChain pf opts world st f i))
                 = trace st @ tr @ [Emit (Fail f ex), Emit End] \<and>
              length (filter isSetTimeout tr) = maxTryCount opts - tryCount i)"
proof (induction "maxTryCount opts - tryCount i" arbitrary: st i)
  case 0
  then have last: "\<not> Suc (tryCount i) \<le> maxTryCount opts" by simp
  from assms 0 have "attemptFails (world (tryCount i))" by simp
  then obtain s_c i_c ex tr where a: "trace s_c = trace st @ tr" "filter isSetTimeout tr = []"
    "hasBegin s_c = (hasBegin st \<or> tryCount i = 0)" "tryCount i_c = tryCount i"
    "\<not> isCancel ex"
    "uploadWork pf opts (world (tryCount i)) st f i = uploadWork_catch opts False s_c f i_c ex"
    by (rule failing_attempt)
  from a(3) 0 have hb: "hasBegin s_c" by simp
  have w: "uploadWork pf opts (world (tryCount i)) st f i
      = (s_c\<lparr> hasBegin := False, trace := trace s_c @ [Emit (Fail f ex), Emit End] \<rparr>, Exhausted)"
    using a(6) catch_exhausted [OF a(5) _ hb, of i_c opts False f] last a(4) by simp
  have c: "uploadChain pf opts world st f i
      = (s_c\<lparr> hasBegin := False, trace := trace s_c @ [Emit (Fail f ex), Emit End] \<rparr>, 1)"
    by (subst uploadChain.simps) (simp add: w)
  have "trace (fst (uploadChain pf opts world st f i)) = trace st @ tr @ [Emit (Fail f ex), Emit End]
      \<and> length (filter isSetTimeout tr) = maxTryCount opts - tryCount i"
    using c a(1,2) 0 by simp
  then have "\<exists>tr ex. trace (fst (uploadChain pf opts world st f i))
                 = trace st @ tr @ [Emit (Fail f ex), Emit End] \<and>
              length (filter isSetTimeout tr) = maxTryCount opts - tryCount i"
    by blast
  moreover have "snd (uploadChain pf opts world st f i) = Suc (maxTryCount opts) - tryCount i"
    using c 0 by simp
  ultimately show ?case by simp
next
  case (Suc k)
  then have more: "Suc (tryCount i) \<le> maxTryCount opts" by simp
  from assms Suc have "attemptFails (world (tryCount i))" by simp
  then obtain s_c i_c ex tr where a: "trace s_c = trace st @ tr" "filter isSetTimeout tr = []"
    "hasBegin s_c = (hasBegin st \<or> tryCount i = 0)" "tryCount i_c = tryCount i"
    "\<not> isCancel ex"
    "uploadWork pf opts (world (tryCount i)) st f i = uploadWork_catch opts False s_c f i_c ex"
    by (rule failing_attempt)
  let ?tr1 = "[Emit (Fail f ex), Emit (BeforeRetry f (Suc (tryCount i)) (maxTryCount opts)),
          SetTimeout (retryTimeout opts)]"
  let ?s1 = "s_c\<lparr> trace := trace s_c @ ?tr1 \<rparr>"
  let ?i1 = "i_c\<lparr> tryCount := Suc (tryCount i), iresume := False \<rparr>"
  have w: "uploadWork pf opts (world (tryCount i)) st f i = (?s1, RetryScheduled ?i1)"
    using a(6) catch_retry [OF a(5), of i_c opts False s_c f] more a(4) by simp
  have c: "uploadChain pf opts world st f i
      = (fst (uploadChain pf opts world ?s1 f ?i1), Suc (snd (uploadChain pf opts world ?s1 f ?i1)))"
    by (subst uploadChain.simps) (simp add: w split: prod.splits)
  have k: "k = maxTryCount opts - tryCount ?i1" using Suc(2) by simp
  have "tryCount ?i1 \<le> maxTryCount opts" using more by simp
  moreover have "hasBegin ?s1 \<or> tryCount ?i1 = 0" using a(3) Suc(4) by simp
  ultimately have ih: "snd (uploadChain pf opts world ?s1 f ?i1) = Suc (maxTryCount opts) - tryCount ?i1 \<and>
     (\<exists>tr ex. trace (fst (uploadChain pf opts world ?s1 f ?i1))
                 = trace ?s1 @ tr @ [Emit (Fail f ex), Emit End] \<and>
              length (filter isSetTimeout tr) = maxTryCount opts - tryCount ?i1)"
    by (rule Suc(1) [OF k])
  then obtain tr2 ex2 where t2: "trace (fst (uploadChain pf opts world ?s1 f ?i1))
                 = trace ?s1 @ tr2 @ [Emit (Fail f ex2), Emit End]"
      "length (filter isSetTimeout tr2) = maxTryCount opts - tryCount ?i1"
    by blast
  have "trace (fst (uploadChain pf opts world st f i))
      = trace st @ (tr @ ?tr1 @ tr2) @ [Emit (Fail f ex2), Emit End]
      \<and> length (filter isSetTimeout (tr @ ?tr1 @ tr2)) = maxTryCount opts - tryCount i"
    using c t2 a(1,2) more by simp
  then have "\<exists>tr ex. trace (fst (uploadChain pf opts world st f i))
                 = trace st @ tr @ [Emit (Fail f ex), Emit End] \<and>
              length (filter isSetTimeout tr) = maxTryCount opts - tryCount i"
    by blast
  moreover have "snd (uploadChain pf opts world st f i) = Suc (maxTryCount opts) - tryCount i"
    using c ih more by simp
  ultimately show ?case by simp
qed

text \<open>
  \<^bold>\<open>C2.\<close> When, at every attempt, the transfer rejects with an error that is not a
  cancellation (and the token provider, when asked, resolves or rejects with an error
  that is not a cancellation) and no observer cancels \<^verbatim>\<open>beforeRetry\<close>, the chain that
  \<^verbatim>\<open>upload\<close> starts (\<^verbatim>\<open>tryCount\<close> 0) makes exactly \<open>maxTryCount + 1\<close> attempts; its trace
  ends with the \<^verbatim>\<open>fail\<close> event of the last attempt and the \<^verbatim>\<open>end\<close> event; and it sets
  \<open>maxTryCount\<close> timers in all, none after the last attempt.
\<close>

theorem always_failing_transfer_retry_bound:
  assumes "\<forall>n\<le>maxTryCount opts. attemptFails (world n)" and "tryCount i = 0"
  shows "snd (uploadChain pf opts world st f i) = maxTryCount opts + 1 \<and>
     (\<exists>tr ex. trace (fst (uploadChain pf opts world st f i))
                 = trace st @ tr @ [Emit (Fail f ex), Emit End] \<and>
              length (filter isSetTimeout tr) = maxTryCount opts)"
  using failing_chain [OF assms(1), of i st pf f] assms(2) by simp

theorem always_failing_transfer_retry_bound_witness:
  "attemptFails demoFailure \<and>
   snd (uploadChain demoPlatform demoOptions demoAlwaysFails initial demoFile demoIntent) = 4 \<and>
   (\<exists>tr ex. trace (fst (uploadChain demoPlatform demoOptions demoAlwaysFails initial demoFile
                 demoIntent))
              = tr @ [Emit (Fail demoFile ex), Emit End] \<and>
            length (filter isSetTimeout tr) = 3)"
proof -
  have f: "attemptFails demoFailure"
    by (simp add: attemptFails_def demoFailure_def demoError_def isCancel_def)
  then have h: "\<forall>n\<le>maxTryCount demoOptions. attemptFails (demoAlwaysFails n)"
    by (simp add: demoAlwaysFails_def)
  have z: "tryCount demoIntent = 0" by (simp add: demoIntent_def)
  show ?thesis
    using always_failing_transfer_retry_bound [OF h z, of demoPlatform initial demoFile] f
    by (simp add: demoOptions_def initial_def)
qed

subsection \<open>Cancellation and failure\<close>

lemma adds_iff: "adds P st s \<longleftrightarrow> (\<exists>tr. trace s = trace st @ tr \<and> list_all P tr)"
proof
  assume "adds P st s"
  then have "trace s = trace st @ drop (length (trace st)) (trace s)"
    "list_all P (drop (length (trace st)) (trace s))"
    unfolding adds_def by (metis append_take_drop_id, simp)
  then show "\<exists>tr. trace s = trace st @ tr \<and> list_all P tr" by blast
next
  assume "\<exists>tr. trace s = trace st @ tr \<and> list_all P tr"
  then show "adds P st s" unfolding adds_def by auto
qed

lemma adds_refl: "adds P st st"
  by (simp add: adds_iff)

lemma addsI: "trace s = trace st @ tr \<Longrightarrow> list_all P tr \<Longrightarrow> adds P st s"
  unfolding adds_iff by blast

lemma adds_trans:
  assumes "adds P a b" and "adds P b c"
  shows "adds P a c"
proof -
  from assms obtain tr1 tr2 where "trace b = trace a @ tr1" "list_all P tr1"
    "trace c = trace b @ tr2" "list_all P tr2"
    unfolding adds_iff by blast
  then have "trace c = trace a @ (tr1 @ tr2)" "list_all P (tr1 @ tr2)" by simp_all
  then show ?thesis by (rule addsI)
qed

lemma adds_mono:
  assumes "adds P a b" and "\<And>e. P e \<Longrightarrow> Q e"
  shows "adds Q a b"
proof -
  from assms(1) obtain tr where t: "trace b = trace a @ tr" "list_all P tr"
    unfolding adds_iff by blast
  from t(2) assms(2) have "list_all Q tr" by (induction tr) auto
  with t(1) show ?thesis by (rule addsI)
qed

lemma quietly_adds: "quietly st s \<Longrightarrow> adds (\<lambda>e. \<not> isLoud e) st s"
  unfolding quietly_def adds_iff by (auto simp: list_ex_iff list_all_iff)

lemma catch_adds: "adds isCatchEffect st (fst (uploadWork_catch opts c st f i ex))"
  by (auto simp: uploadWork_catch_def st_defs Let_def adds_iff)

lemma catch_fields:
  "localStorage (fst (uploadWork_catch opts c st f i ex)) = localStorage st"
  "this_client (fst (uploadWork_catch opts c st f i ex)) = this_client st"
  "isPausedInner (fst (uploadWork_catch opts c st f i ex)) = isPausedInner st"
  "this_hash (fst (uploadWork_catch opts c st f i ex)) = this_hash st"
  "this_file (fst (uploadWork_catch opts c st f i ex)) = this_file st"
  by (auto simp: uploadWork_catch_def st_defs Let_def)

lemma getItem_cong: "localStorage s = localStorage st \<Longrightarrow> getItem s = getItem st"
  by (auto simp: getItem_def fun_eq_iff)

lemma quietly_dom: "quietly st s \<Longrightarrow> dom (getItem st) \<subseteq> dom (getItem s)"
  by (simp add: quietly_def)

lemma begin_adds:
  "adds (\<lambda>e. e = Emit Begin \<or> e = Emit (IsPausedChanged False)) st (uploadWork_begin st f i)"
  by (rule addsI [OF begin_fields(7)]) simp

lemma unfinished_attempt_removes_nothing:
  assumes "snd (uploadWork pf opts a st f i) \<noteq> Completed"
  shows "adds (\<lambda>e. \<not> isRemoveItem e) st (fst (uploadWork pf opts a st f i)) \<and>
     dom (getItem st) \<subseteq> dom (getItem (fst (uploadWork pf opts a st f i)))"
proof (cases rule: uploadWork_cases [of st f i pf a opts])
  case c: (caught s_c i_c ex)
  let ?s' = "fst (uploadWork_catch opts (retryCanceled a) s_c f i_c ex)"
  have 1: "adds (\<lambda>e. \<not> isRemoveItem e) st (uploadWork_begin st f i)"
    by (rule adds_mono [OF begin_adds]) auto
  have 2: "adds (\<lambda>e. \<not> isRemoveItem e) (uploadWork_begin st f i) s_c"
    by (rule adds_mono [OF quietly_adds [OF c(1)]]) (auto elim: isRemoveItem.elims)
  have 3: "adds (\<lambda>e. \<not> isRemoveItem e) s_c ?s'"
    by (rule adds_mono [OF catch_adds]) (auto elim: isRemoveItem.elims)
  have "dom (getItem st) \<subseteq> dom (getItem ?s')"
    using quietly_dom [OF c(1)]
    by (simp add: getItem_cong [OF catch_fields(1)] getItem_cong [OF begin_fields(5)])
  with adds_trans [OF adds_trans [OF 1 2] 3] c(4) show ?thesis by simp
next
  case (completed s_c i_c res url)
  with assms show ?thesis by simp
qed

lemma cancelled_attempt:
  assumes "attemptError pf a i = Some ex" and "isCancel ex"
  shows "snd (uploadWork pf opts a st f i) = Cancelled \<and>
     adds (\<lambda>e. \<not> isLoud e) st (fst (uploadWork pf opts a st f i)) \<and>
     dom (getItem st) \<subseteq> dom (getItem (fst (uploadWork pf opts a st f i)))"
proof (cases rule: uploadWork_cases [of st f i pf a opts])
  case c: (caught s_c i_c ex')
  with assms have u: "uploadWork pf opts a st f i = (s_c, Cancelled)"
    by (simp add: catch_cancel)
  have 1: "adds (\<lambda>e. \<not> isLoud e) st (uploadWork_begin st f i)"
    by (rule adds_mono [OF begin_adds]) auto
  have "dom (getItem st) \<subseteq> dom (getItem s_c)"
    using quietly_dom [OF c(1)] by (simp add: getItem_cong [OF begin_fields(5)])
  with adds_trans [OF 1 quietly_adds [OF c(1)]] u show ?thesis by simp
next
  case (completed s_c i_c res url)
  with assms show ?thesis by simp
qed

text \<open>
  \<^bold>\<open>C5.\<close> The \<^verbatim>\<open>catch\<close> block returns at once on an error with status 0 and name
  \<^verbatim>\<open>cancel\<close>: the state is the one the error was thrown in (store and trace untouched)
  and nothing is scheduled. An attempt that throws such an error ends \<open>Cancelled\<close>, and
  all it has added to the trace is silent: no \<^verbatim>\<open>fail\<close>, \<^verbatim>\<open>beforeRetry\<close> or \<^verbatim>\<open>end\<close>
  event, no timer, no removal from the store. And whatever way an attempt ends short of
  completion, it removes nothing from the store: every key the store held it still holds.
\<close>

theorem cancellation_is_silent:
  "(isCancel ex \<longrightarrow> uploadWork_catch opts c st f i ex = (st, Cancelled)) \<and>
   (attemptError pf a i = Some ex \<and> isCancel ex \<longrightarrow>
      snd (uploadWork pf opts a st f i) = Cancelled \<and>
      adds (\<lambda>e. \<not> isLoud e) st (fst (uploadWork pf opts a st f i))) \<and>
   (snd (uploadWork pf opts a st f i) \<noteq> Completed \<longrightarrow>
      adds (\<lambda>e. \<not> isRemoveItem e) st (fst (uploadWork pf opts a st f i)) \<and>
      dom (getItem st) \<subseteq> dom (getItem (fst (uploadWork pf opts a st f i))))"
  using catch_cancel [of ex opts c st f i] cancelled_attempt [of pf a i ex opts st f]
    unfinished_attempt_removes_nothing [of pf opts a st f i]
  by blast

theorem cancellation_is_silent_witness:
  "isCancel demoCancel \<and>
   uploadWork_catch demoOptions False initial demoFile demoIntent demoCancel = (initial, Cancelled) \<and>
   snd (uploadWork demoPlatform demoOptions demoCancelled demoStored demoFile demoIntent) = Cancelled \<and>
   adds (\<lambda>e. \<not> isLoud e) demoStored
     (fst (uploadWork demoPlatform demoOptions demoCancelled demoStored demoFile demoIntent)) \<and>
   adds (\<lambda>e. \<not> isRemoveItem e) demoStored
     (fst (uploadWork demoPlatform demoOptions demoCancelled demoStored demoFile demoIntent)) \<and>
   dom (getItem demoStored)
     \<subseteq> dom (getItem (fst (uploadWork demoPlatform demoOptions demoCancelled demoStored demoFile
           demoIntent)))"
proof -
  have c: "isCancel demoCancel" by (simp add: isCancel_def demoCancel_def)
  have e: "attemptError demoPlatform demoCancelled demoIntent = Some demoCancel"
    by (simp add: attemptError_def transferError_def demoCancelled_def demoIntent_def)
  show ?thesis
    using cancellation_is_silent [of demoCancel demoOptions False initial demoFile demoIntent
        demoPlatform demoCancelled]
      cancellation_is_silent [of demoCancel demoOptions False demoStored demoFile demoIntent
        demoPlatform demoCancelled] c e
    by simp
qed

subsection \<open>The token\<close>

lemma onProgress_adds:
  "adds isOutcomeEffect st (fst (onProgress pf st f i tick)) \<and>
   this_client (fst (onProgress pf st f i tick)) = this_client st"
  by (cases tick) (auto simp: onProgress_def st_defs Let_def adds_iff)

lemma ticks_adds:
  "adds isOutcomeEffect st (fst (fold (\<lambda>tick (s, i). onProgress pf s f i tick) ts (st, i))) \<and>
   this_client (fst (fold (\<lambda>tick (s, i). onProgress pf s f i tick) ts (st, i))) = this_client st"
proof (induction ts arbitrary: st i)
  case Nil
  show ?case by (simp add: adds_refl)
next
  case (Cons tick ts)
  obtain s1 i1 where step: "onProgress pf st f i tick = (s1, i1)"
    by (cases "onProgress pf st f i tick")
  from onProgress_adds [of st pf f i tick] step
  have 1: "adds isOutcomeEffect st s1" "this_client s1 = this_client st" by simp_all
  from Cons.IH [of s1 i1] adds_trans [OF 1(1)] 1(2) show ?case
    by (simp add: step)
qed

lemma catch_is_outcome: "isCatchEffect e \<Longrightarrow> isOutcomeEffect e"
  by (erule isCatchEffect.elims) simp_all

lemma catch_adds_outcome: "adds isOutcomeEffect st (fst (uploadWork_catch opts c st f i ex))"
  by (rule adds_mono [OF catch_adds catch_is_outcome])

lemma done_adds:
  "adds isOutcomeEffect st (fst (uploadWork_done pf opts c st f i res)) \<and>
   this_client (fst (uploadWork_done pf opts c st f i res)) = this_client st"
proof (cases "resultUrl pf res")
  case (Inl ex)
  then show ?thesis
    using catch_adds_outcome [of st opts c f i ex]
    by (simp add: uploadWork_done_def catch_fields)
next
  case (Inr url)
  then show ?thesis
    by (auto simp: uploadWork_done_def st_defs adds_iff split: option.splits)
qed

lemma transferPhase_adds:
  "adds isOutcomeEffect st (fst (transferPhase pf opts a st f i)) \<and>
   this_client (fst (transferPhase pf opts a st f i)) = this_client st"
proof -
  obtain s1 i1 where fd: "fold (\<lambda>tick (s, i). onProgress pf s f i tick) (ticks a) (st, i) = (s1, i1)"
    by (cases "fold (\<lambda>tick (s, i). onProgress pf s f i tick) (ticks a) (st, i)")
  from ticks_adds [of st pf f "ticks a" i] fd
  have 1: "adds isOutcomeEffect st s1" "this_client s1 = this_client st" by simp_all
  show ?thesis
  proof (cases "transferResponse a")
    case (Inl ex)
    then show ?thesis
      using adds_trans [OF 1(1) catch_adds_outcome [of s1 opts "retryCanceled a" f i1 ex]] 1(2)
      by (simp add: transferPhase_def fd catch_fields)
  next
    case (Inr res)
    then show ?thesis
      using adds_trans [OF 1(1)] done_adds [of s1 pf opts "retryCanceled a" f i1 res] 1(2)
      by (simp add: transferPhase_def fd)
  qed
qed

lemma outcome_not_token: "list_all isOutcomeEffect tr \<Longrightarrow> \<not> list_ex isTokenEffect tr"
  by (induction tr) (auto elim!: isTokenEffect.elims)

lemma transferPhase_rest:
  obtains rest where "trace (fst (transferPhase pf opts a st f i)) = trace st @ rest"
    "\<not> list_ex isTokenEffect rest"
    "this_client (fst (transferPhase pf opts a st f i)) = this_client st"
  using transferPhase_adds [of st pf opts a f i] outcome_not_token
  unfolding adds_iff by blast

lemma cached_token_attempt:
  assumes "iresume i" and "truthy (getProp (track i) ''token'')"
  shows "this_client (fst (uploadWork pf opts a st f i)) = Some (getProp (track i) ''token'') \<and>
     (\<exists>rest. trace (fst (uploadWork pf opts a st f i))
         = trace (uploadWork_begin st f i) @
           [NewOSS (getProp (track i) ''token''), Emit Prepare,
            MultipartUpload (getProp (track i) ''fileName'') f (getProp (track i) ''checkpoint'')]
           @ rest \<and> \<not> list_ex isTokenEffect rest)"
proof -
  let ?s1 = "startTransfer (uploadWork_begin st f i) f i (getProp (track i) ''token'')"
  have u: "uploadWork pf opts a st f i = transferPhase pf opts a ?s1 f i"
    using assms by (simp add: uploadWork_def uploadWork_enter_def Let_def)
  obtain rest where r: "trace (fst (transferPhase pf opts a ?s1 f i)) = trace ?s1 @ rest"
    "\<not> list_ex isTokenEffect rest"
    "this_client (fst (transferPhase pf opts a ?s1 f i)) = this_client ?s1"
    by (rule transferPhase_rest)
  have "trace ?s1 = trace (uploadWork_begin st f i) @
           [NewOSS (getProp (track i) ''token''), Emit Prepare,
            MultipartUpload (getProp (track i) ''fileName'') f (getProp (track i) ''checkpoint'')]"
    "this_client ?s1 = Some (getProp (track i) ''token'')"
    by (simp_all add: startTransfer_def st_defs)
  with r u show ?thesis by simp
qed

lemma fresh_token_attempt:
  assumes "\<not> (iresume i \<and> truthy (getProp (track i) ''token''))" and "tokenResponse a = Inr ret"
    and "track' = withToken (track i) ret"
  shows "this_client (fst (uploadWork pf opts a st f i)) = Some (jsOfToken ret) \<and>
     (\<exists>rest. trace (fst (uploadWork pf opts a st f i))
         = trace (uploadWork_begin st f i) @
           [Emit BeforeGetToken, GetToken (getProp (track i) ''param'') (getTokenUrl pf opts),
            SetItem (storageKeyPrefix @ ihash i) (JSON_stringify pf track'),
            Emit (AfterGetToken f ret), NewOSS (jsOfToken ret), Emit Prepare,
            MultipartUpload (getProp track' ''fileName'') f (getProp track' ''checkpoint'')]
           @ rest \<and> \<not> list_ex isTokenEffect rest)"
proof -
  let ?s1 = "call (GetToken (getProp (track i) ''param'') (getTokenUrl pf opts))
        (emit BeforeGetToken (uploadWork_begin st f i))"
  let ?s2 = "fst (receiveToken pf ?s1 f i ret)"
  let ?i2 = "snd (receiveToken pf ?s1 f i ret)"
  have u: "uploadWork pf opts a st f i = transferPhase pf opts a ?s2 f ?i2"
    using assms(1,2)
    by (auto simp: uploadWork_def uploadWork_enter_def Let_def split: prod.splits)
  obtain rest where r: "trace (fst (transferPhase pf opts a ?s2 f ?i2)) = trace ?s2 @ rest"
    "\<not> list_ex isTokenEffect rest"
    "this_client (fst (transferPhase pf opts a ?s2 f ?i2)) = this_client ?s2"
    by (rule transferPhase_rest)
  have "trace ?s2 = trace (uploadWork_begin st f i) @
           [Emit BeforeGetToken, GetToken (getProp (track i) ''param'') (getTokenUrl pf opts),
            SetItem (storageKeyPrefix @ ihash i) (JSON_stringify pf track'),
            Emit (AfterGetToken f ret), NewOSS (jsOfToken ret), Emit Prepare,
            MultipartUpload (getProp track' ''fileName'') f (getProp track' ''checkpoint'')]"
    "this_client ?s2 = Some (jsOfToken ret)"
    by (simp_all add: receiveToken_def startTransfer_def st_defs Let_def assms(3))
  with r u show ?thesis by simp
qed

lemma token_requested:
  assumes "\<not> (iresume i \<and> truthy (getProp (track i) ''token''))"
  shows "\<exists>rest. trace (fst (uploadWork pf opts a st f i))
         = trace (uploadWork_begin st f i) @
           [Emit BeforeGetToken, GetToken (getProp (track i) ''param'') (getTokenUrl pf opts)]
           @ rest"
proof (cases "tokenResponse a")
  case (Inl ex)
  let ?s1 = "call (GetToken (getProp (track i) ''param'') (getTokenUrl pf opts))
        (emit BeforeGetToken (uploadWork_begin st f i))"
  have u: "uploadWork pf opts a st f i = uploadWork_catch opts (retryCanceled a) ?s1 f i ex"
    using assms Inl by (auto simp: uploadWork_def uploadWork_enter_def Let_def)
  from catch_adds [of ?s1 opts "retryCanceled a" f i ex] obtain tr where
    "trace (fst (uploadWork_catch opts (retryCanceled a) ?s1 f i ex)) = trace ?s1 @ tr"
    unfolding adds_iff by blast
  with u show ?thesis by (simp add: st_defs)
next
  case (Inr ret)
  from fresh_token_attempt [OF assms Inr refl, of pf opts st f] show ?thesis by auto
qed

lemma withToken_props:
  "getProp (withToken (JObj ps) ret) ''token'' = jsOfToken ret"
  "getProp (withToken (JObj ps) ret) ''fileName'' = JStr (fileName ret)"
  "k \<noteq> ''token'' \<Longrightarrow> k \<noteq> ''fileName'' \<Longrightarrow>
     getProp (withToken (JObj ps) ret) k = getProp (JObj ps) k"
  by (simp_all add: withToken_def update_conv')

lemma assignProp_object:
  "assignProp (getProp c ''checkpoint'') k v = Inr cp \<Longrightarrow> \<exists>ps. setProp c k' cp = JObj ps"
  by (cases c) simp_all

lemma uploadIntent_track_object:
  assumes "snd (uploadIntent pf opts now st f p) = Start i"
  shows "\<exists>ps. track i = JObj ps"
  using assms assignProp_object
  by (auto simp: uploadIntent_def newTrack_def objLit_def Let_def
      split: if_splits sum.splits cacheResult.splits option.splits)

lemma track_stays_object:
  "track i = JObj ps \<Longrightarrow> \<exists>ps'. track (snd (onProgress pf st f i tick)) = JObj ps'"
  "track i = JObj ps \<Longrightarrow> \<exists>ps'. track (snd (receiveToken pf st f i ret)) = JObj ps'"
  by (cases tick) (simp_all add: onProgress_def receiveToken_def withToken_def Let_def)

lemma receiveToken_saved:
  "getItem (fst (receiveToken pf st f i ret)) (storageKeyPrefix @ ihash i)
     = Some (JSON_stringify pf (withToken (track i) ret)) \<and>
   track (snd (receiveToken pf st f i ret)) = withToken (track i) ret"
  by (simp add: receiveToken_def startTransfer_def saveTrack_def st_defs getItem_def
      update_conv' Let_def)

text \<open>
  \<^bold>\<open>C4.\<close> An attempt entered with \<^verbatim>\<open>resume\<close> true and a truthy \<^verbatim>\<open>track.token\<close> builds its
  client from that token right after the first-attempt block and adds no token effect
  (no \<^verbatim>\<open>beforeGetToken\<close>, no call of the provider, no \<^verbatim>\<open>afterGetToken\<close>) to the trace.
  Any other attempt emits \<^verbatim>\<open>beforeGetToken\<close> and calls the provider, whatever the
  provider then does; when it resolves with \<open>ret\<close>, the Track with \<^verbatim>\<open>fileName\<close> and \<^verbatim>\<open>token\<close> set from \<open>ret\<close> is
  written to the store under the fingerprint's key, then \<^verbatim>\<open>afterGetToken\<close> is emitted,
  then the client is built from \<open>ret\<close> and the transfer is called with the new
  \<^verbatim>\<open>fileName\<close>; no further token effect follows. The Track that is written carries the
  token and the name: its \<^verbatim>\<open>token\<close> is \<open>ret\<close>, its \<^verbatim>\<open>fileName\<close> is the \<^verbatim>\<open>fileName\<close> of
  \<open>ret\<close>, which is the name the transfer is called with, and every other property is what
  it was in the attempt's Track. When the provider's answer has been taken the store
  holds that Track's text under the fingerprint's key and the attempt goes on with that
  Track. The Track of every intent that \<^verbatim>\<open>upload\<close> starts is an object.
\<close>

theorem token_reused_or_requested:
  "(iresume i \<and> truthy (getProp (track i) ''token'') \<longrightarrow>
      this_client (fst (uploadWork pf opts a st f i)) = Some (getProp (track i) ''token'') \<and>
      (\<exists>rest. trace (fst (uploadWork pf opts a st f i))
         = trace (uploadWork_begin st f i) @
           [NewOSS (getProp (track i) ''token''), Emit Prepare,
            MultipartUpload (getProp (track i) ''fileName'') f (getProp (track i) ''checkpoint'')]
           @ rest \<and> \<not> list_ex isTokenEffect rest)) \<and>
   (\<not> (iresume i \<and> truthy (getProp (track i) ''token'')) \<and> tokenResponse a = Inr ret \<longrightarrow>
      this_client (fst (uploadWork pf opts a st f i)) = Some (jsOfToken ret) \<and>
      (\<exists>rest. trace (fst (uploadWork pf opts a st f i))
         = trace (uploadWork_begin st f i) @
           [Emit BeforeGetToken, GetToken (getProp (track i) ''param'') (getTokenUrl pf opts),
            SetItem (storageKeyPrefix @ ihash i) (JSON_stringify pf (withToken (track i) ret)),
            Emit (AfterGetToken f ret), NewOSS (jsOfToken ret), Emit Prepare,
            MultipartUpload (getProp (withToken (track i) ret) ''fileName'') f
              (getProp (withToken (track i) ret) ''checkpoint'')]
           @ rest \<and> \<not> list_ex isTokenEffect rest)) \<and>
   (\<not> (iresume i \<and> truthy (getProp (track i) ''token'')) \<longrightarrow>
      (\<exists>rest. trace (fst (uploadWork pf opts a st f i))
         = trace (uploadWork_begin st f i) @
           [Emit BeforeGetToken, GetToken (getProp (track i) ''param'') (getTokenUrl pf opts)]
           @ rest)) \<and>
   trace (uploadWork_begin st f i) =
     trace st @ (if tryCount i = 0
                 then Emit Begin # (if isPausedInner st then [Emit (IsPausedChanged False)] else [])
                 else []) \<and>
   (track i = JObj ps \<longrightarrow>
      getProp (withToken (track i) ret) ''token'' = jsOfToken ret \<and>
      getProp (withToken (track i) ret) ''fileName'' = JStr (fileName ret) \<and>
      (k \<noteq> ''token'' \<and> k \<noteq> ''fileName'' \<longrightarrow>
         getProp (withToken (track i) ret) k = getProp (track i) k)) \<and>
   getItem (fst (receiveToken pf st' f i ret)) (storageKeyPrefix @ ihash i)
     = Some (JSON_stringify pf (withToken (track i) ret)) \<and>
   track (snd (receiveToken pf st' f i ret)) = withToken (track i) ret \<and>
   (snd (uploadIntent pf opts now st0 f p) = Start i \<longrightarrow> (\<exists>qs. track i = JObj qs))"
proof -
  have props: "track i = JObj ps \<longrightarrow>
      getProp (withToken (track i) ret) ''token'' = jsOfToken ret \<and>
      getProp (withToken (track i) ret) ''fileName'' = JStr (fileName ret) \<and>
      (k \<noteq> ''token'' \<and> k \<noteq> ''fileName'' \<longrightarrow>
         getProp (withToken (track i) ret) k = getProp (track i) k)"
    by (simp add: withToken_props)
  have started: "snd (uploadIntent pf opts now st0 f p) = Start i \<longrightarrow> (\<exists>qs. track i = JObj qs)"
    using uploadIntent_track_object by blast
  show ?thesis
    using cached_token_attempt [of i pf opts a st f]
      fresh_token_attempt [of i a ret "withToken (track i) ret" pf opts st f]
      token_requested [of i pf opts a st f] begin_fields(7) [of st f i]
      receiveToken_saved [of pf st' f i ret] props started
    by blast
qed

theorem token_reused_or_requested_witness:
  "iresume demoResumeIntent \<and> truthy (getProp (track demoResumeIntent) ''token'') \<and>
   this_client (fst (uploadWork demoPlatform demoOptions demoSuccess initial demoFile
       demoResumeIntent)) = Some (jsOfToken demoToken) \<and>
   \<not> iresume demoStart \<and> tokenResponse demoSuccess = Inr demoToken \<and>
   this_client (fst (uploadWork demoPlatform demoOptions demoSuccess initial demoFile demoStart))
     = Some (jsOfToken demoToken) \<and>
   snd (uploadIntent demoPlatform demoOptions 990 initial demoFile plainParam) = Start demoStart \<and>
   getProp (track demoStart) ''token'' = JUndefined \<and>
   getProp (withToken (track demoStart) demoToken) ''token'' = jsOfToken demoToken \<and>
   getProp (withToken (track demoStart) demoToken) ''fileName'' = JStr (fileName demoToken) \<and>
   getProp (withToken (track demoStart) demoToken) ''percent'' = getProp (track demoStart) ''percent''"
proof -
  have r: "iresume demoResumeIntent" "truthy (getProp (track demoResumeIntent) ''token'')"
    "getProp (track demoResumeIntent) ''token'' = jsOfToken demoToken"
    by (simp_all add: demoResumeIntent_def demoSavedTrack_def jsOfToken_def)
  have n: "\<not> iresume demoStart" "tokenResponse demoSuccess = Inr demoToken"
    "snd (uploadIntent demoPlatform demoOptions 990 initial demoFile plainParam) = Start demoStart"
    "getProp (track demoStart) ''token'' = JUndefined"
    by code_simp+
  from n(3) obtain qs where qs: "track demoStart = JObj qs"
    using token_reused_or_requested [where i = demoStart and pf = demoPlatform
        and opts = demoOptions and now = 990 and ?st0.0 = initial and f = demoFile
        and p = plainParam]
    by blast
  show ?thesis
    using token_reused_or_requested [where i = demoResumeIntent and pf = demoPlatform
        and opts = demoOptions and a = demoSuccess and st = initial and f = demoFile
        and ret = demoToken]
      token_reused_or_requested [where i = demoStart and pf = demoPlatform
        and opts = demoOptions and a = demoSuccess and st = initial and f = demoFile
        and ret = demoToken and ps = qs and k = "''percent''"] r n qs
    by simp
qed

subsection \<open>The store\<close>




lemma uploadIntent_state:
  "fst (uploadIntent pf opts now st f p) = cleanTracks pf now (expireTime opts) st"
  by (simp add: uploadIntent_def Let_def split: sum.splits cacheResult.splits)




subsection \<open>The fingerprint\<close>

text \<open>
  \<^bold>\<open>C9.\<close> The fingerprint is a function of the file's name, size, type and last-modified
  time and of the three upload parameters, and of nothing else: two files that agree on
  the four fields (whatever their contents) with parameters that agree field by field
  have the same fingerprint. \<^verbatim>\<open>getHash\<close> takes no state and returns none.
\<close>

theorem getHash_fieldwise:
  "f_name f1 = f_name f2 \<Longrightarrow> f_size f1 = f_size f2 \<Longrightarrow> f_type f1 = f_type f2 \<Longrightarrow>
   f_lastModified f1 = f_lastModified f2 \<Longrightarrow>
   fileType p1 = fileType p2 \<Longrightarrow> subCategory p1 = subCategory p2 \<Longrightarrow>
   fileExtension p1 = fileExtension p2 \<Longrightarrow>
   getHash pf (getOssItem f1 p1) = getHash pf (getOssItem f2 p2)"
  by (simp add: getOssItem_def paramProps_def)

theorem getHash_fieldwise_witness:
  "demoFile\<lparr> f_blob := 2 \<rparr> \<noteq> demoFile
   \<and> getHash demoPlatform (getOssItem (demoFile\<lparr> f_blob := 2 \<rparr>) (uploadParam demoPlatform demoOptions demoFile plainParam))
     = getHash demoPlatform (getOssItem demoFile (uploadParam demoPlatform demoOptions demoFile plainParam))"
  using getHash_fieldwise [of "demoFile\<lparr> f_blob := 2 \<rparr>" demoFile
      "uploadParam demoPlatform demoOptions demoFile plainParam"
      "uploadParam demoPlatform demoOptions demoFile plainParam" demoPlatform]
  by (simp add: demoFile_def)

subsection \<open>The paused flag\<close>

lemma alternating_append:
  "alternating c (xs @ ys) = (alternating c xs \<and> alternating (last (c # xs)) ys)"
  by (induction xs arbitrary: c) auto

lemma noFlag_flags: "list_all noFlag tr \<Longrightarrow> pausedFlags tr = []"
  by (induction tr rule: pausedFlags.induct) auto

lemma flagsOK_adds:
  assumes "flagsOK st" and "adds noFlag st s" and "isPausedInner s = isPausedInner st"
  shows "flagsOK s"
proof -
  from assms(2) obtain tr where "trace s = trace st @ tr" "list_all noFlag tr"
    unfolding adds_iff by blast
  then have "pausedFlags (trace s) = pausedFlags (trace st)"
    by (simp add: pausedFlags_append noFlag_flags)
  with assms(1,3) show ?thesis by (simp add: flagsOK_def)
qed

lemma flagsOK_setIsPaused: "flagsOK st \<Longrightarrow> flagsOK (setIsPaused v st)"
  by (auto simp: flagsOK_def setIsPaused_def emit_def pausedFlags_append alternating_append)


lemma flagsOK_quietly: "flagsOK st \<Longrightarrow> quietly st s \<Longrightarrow> flagsOK s"
  unfolding quietly_def flagsOK_def by (auto simp: pausedFlags_append)

lemma flagsOK_fields [simp]:
  "flagsOK (st\<lparr> hasBegin := b \<rparr>) = flagsOK st"
  "flagsOK (st\<lparr> this_file := x \<rparr>) = flagsOK st"
  "flagsOK (st\<lparr> this_hash := y \<rparr>) = flagsOK st"
  "flagsOK (st\<lparr> this_client := z \<rparr>) = flagsOK st"
  "flagsOK (st\<lparr> localStorage := ls \<rparr>) = flagsOK st"
  by (simp_all add: flagsOK_def)

lemma flagsOK_effect: "noFlag e \<Longrightarrow> flagsOK (st\<lparr> trace := trace st @ [e] \<rparr>) = flagsOK st"
  by (simp add: flagsOK_def pausedFlags_append noFlag_flags)

lemma flagsOK_pause: "flagsOK st \<Longrightarrow> flagsOK (pause st)"
  by (simp add: pause_def flagsOK_setIsPaused call_def flagsOK_effect)

lemma flagsOK_end_chain: "flagsOK st \<Longrightarrow> flagsOK (end_chain st)"
  using flagsOK_effect [of "Emit End" "st\<lparr> hasBegin := False \<rparr>"]
  by (simp add: end_chain_def emit_def)

lemma flagsOK_removeItem: "flagsOK (removeItem k st) = flagsOK st"
  using flagsOK_effect [of "RemoveItem k" "st\<lparr> localStorage := AList.delete k (localStorage st) \<rparr>"]
  by (simp add: removeItem_def)

lemma flagsOK_clean: "flagsOK st \<Longrightarrow> flagsOK (clean st)"
  by (simp add: clean_def delTrack_def flagsOK_removeItem split: option.splits)

lemma flagsOK_stop: "flagsOK st \<Longrightarrow> flagsOK (stop st)"
  by (simp add: stop_def flagsOK_clean flagsOK_end_chain flagsOK_pause)

lemma flagsOK_cleanTrack: "flagsOK (cleanTrack pf now e k st) = flagsOK st"
  by (simp add: cleanTrack_def Let_def flagsOK_removeItem)

lemma flagsOK_cleanTracks: "flagsOK (cleanTracks pf now e st) = flagsOK st"
proof -
  have "flagsOK (fold (cleanTrack pf now e) ks st) = flagsOK st" for ks
    by (induction ks arbitrary: st) (simp_all add: flagsOK_cleanTrack)
  then show ?thesis by (simp add: cleanTracks_def)
qed

lemma flagsOK_begin: "flagsOK st \<Longrightarrow> flagsOK (uploadWork_begin st f i)"
  using flagsOK_setIsPaused [of "st\<lparr> trace := trace st @ [Emit Begin] \<rparr>" False]
  by (simp add: uploadWork_begin_def emit_def flagsOK_effect)

lemma flagsOK_enter: "flagsOK st \<Longrightarrow> flagsOK (fst (uploadWork_enter pf opts st f i))"
  using enter_quietly [of pf opts st f i] flagsOK_quietly [OF flagsOK_begin [of st f i]]
  by (cases "uploadWork_enter pf opts st f i") simp

lemma flagsOK_upload_enter: "flagsOK st \<Longrightarrow> flagsOK (upload_enter pf opts now st f p)"
proof -
  assume ok: "flagsOK st"
  obtain s1 d where u: "uploadIntent pf opts now st f p = (s1, d)"
    by (cases "uploadIntent pf opts now st f p")
  with uploadIntent_state [of pf opts now st f p] have "s1 = cleanTracks pf now (expireTime opts) st"
    by simp
  with ok have "flagsOK s1" by (simp add: flagsOK_cleanTracks)
  then show ?thesis
    by (cases d) (simp_all add: upload_enter_def u flagsOK_enter)
qed

lemma flagsOK_resume: "flagsOK st \<Longrightarrow> flagsOK (resume pf opts now st)"
  by (simp add: resume_def flagsOK_cleanTracks flagsOK_upload_enter split: option.splits)

lemma flagsOK_receiveToken: "flagsOK st \<Longrightarrow> flagsOK (fst (receiveToken pf st f i ret))"
  using receiveToken_quietly [of pf st f i ret] flagsOK_quietly [of st]
  by (cases "receiveToken pf st f i ret") simp

lemma flagsOK_onProgress: "flagsOK st \<Longrightarrow> flagsOK (fst (onProgress pf st f i tick))"
  using onProgress_quietly [of pf st f i tick] flagsOK_quietly [of st]
  by (cases "onProgress pf st f i tick") simp

lemma flagsOK_catch: "flagsOK st \<Longrightarrow> flagsOK (fst (uploadWork_catch opts c st f i ex))"
proof -
  assume ok: "flagsOK st"
  have "adds noFlag st (fst (uploadWork_catch opts c st f i ex))"
    by (rule adds_mono [OF catch_adds]) (auto elim: isCatchEffect.elims)
  from flagsOK_adds [OF ok this catch_fields(3)] show ?thesis .
qed

lemma flagsOK_done: "flagsOK st \<Longrightarrow> flagsOK (fst (uploadWork_done pf opts c st f i res))"
  using flagsOK_effect [of "Emit (Done f url res)" st for url]
  by (cases "resultUrl pf res") (simp_all add: uploadWork_done_def flagsOK_catch flagsOK_clean emit_def)

lemma reachable_flagsOK: "reachable pf opts st \<Longrightarrow> flagsOK st"
proof (induction rule: reachable.induct)
  case (r_new ls)
  show ?case by (simp add: flagsOK_def initial_def)
qed (simp_all add: flagsOK_cleanTracks flagsOK_upload_enter flagsOK_pause flagsOK_resume flagsOK_stop flagsOK_enter
    flagsOK_receiveToken flagsOK_onProgress flagsOK_done flagsOK_catch)

text \<open>
  \<^bold>\<open>C10.\<close> In every state the uploader can reach, the values carried by the
  \<^verbatim>\<open>isPausedChanged\<close> events emitted so far alternate (no two consecutive ones are
  equal, the first is \<^verbatim>\<open>true\<close>) and the last is the current value of the flag:
  \<^verbatim>\<open>setIsPaused\<close> emits exactly when the value it is given differs from the flag. A call
  of \<^verbatim>\<open>pause\<close> without a client or while paused, and a call of \<^verbatim>\<open>resume\<close> while not
  paused, return the state they were called in.
\<close>

theorem isPausedChanged_only_on_change:
  "(reachable pf opts st \<longrightarrow>
      alternating False (pausedFlags (trace st)) \<and>
      last (False # pausedFlags (trace st)) = isPausedInner st) \<and>
   trace (setIsPaused v st)
     = trace st @ (if v \<noteq> isPausedInner st then [Emit (IsPausedChanged v)] else []) \<and>
   isPausedInner (setIsPaused v st) = v \<and>
   (this_client st = None \<or> isPausedInner st \<longrightarrow> pause st = st) \<and>
   (\<not> isPausedInner st \<longrightarrow> resume pf opts now st = st)"
  using reachable_flagsOK [of pf opts st]
  by (auto simp: flagsOK_def setIsPaused_def emit_def pause_def resume_def)

theorem isPausedChanged_only_on_change_witness:
  "reachable demoPlatform demoOptions demoPaused \<and>
   alternating False (pausedFlags (trace demoPaused)) \<and>
   last (False # pausedFlags (trace demoPaused)) = isPausedInner demoPaused \<and>
   pausedFlags (trace demoPaused) = [True] \<and>
   pause demoPaused = demoPaused \<and>
   resume demoPlatform demoOptions 1000 initial = initial"
proof -
  have "reachable demoPlatform demoOptions (initial\<lparr> localStorage := [] \<rparr>)"
    by (rule r_new)
  then have "reachable demoPlatform demoOptions initial"
    by (simp add: initial_def)
  then have r: "reachable demoPlatform demoOptions demoPaused"
    unfolding demoPaused_def by (intro r_pause r_token r_upload)
  have e: "pausedFlags (trace demoPaused) = [True]" "isPausedInner demoPaused"
    "\<not> isPausedInner initial"
    by code_simp+
  show ?thesis
    using isPausedChanged_only_on_change [of demoPlatform demoOptions demoPaused True 1000]
      isPausedChanged_only_on_change [of demoPlatform demoOptions initial True 1000] r e
    by simp
qed

subsection \<open>The resume policy\<close>

lemma events_append: "events (xs @ ys) = events xs @ events ys"
  by (induction xs rule: events.induct) auto

lemma cleanTrack_frame:
  "(cleanTrack pf now e k st)\<lparr> localStorage := ls, trace := tr \<rparr>
     = st\<lparr> localStorage := ls, trace := tr \<rparr> \<and>
   adds isRemoveItem st (cleanTrack pf now e k st)"
  by (simp add: cleanTrack_def Let_def removeItem_def adds_iff)

lemma cleanTracks_frame:
  "(cleanTracks pf now e st)\<lparr> localStorage := ls, trace := tr \<rparr>
     = st\<lparr> localStorage := ls, trace := tr \<rparr> \<and>
   adds isRemoveItem st (cleanTracks pf now e st)"
proof -
  have "(fold (cleanTrack pf now e) ks st)\<lparr> localStorage := ls, trace := tr \<rparr>
     = st\<lparr> localStorage := ls, trace := tr \<rparr> \<and>
     adds isRemoveItem st (fold (cleanTrack pf now e) ks st)" for ks
  proof (induction ks arbitrary: st)
    case Nil
    show ?case by (simp add: adds_refl)
  next
    case (Cons k ks)
    from Cons.IH [of "cleanTrack pf now e k st"]
      cleanTrack_frame [where pf = pf and now = now and e = e and k = k and st = st
        and ls = ls and tr = tr]
      adds_trans [of isRemoveItem st "cleanTrack pf now e k st"]
    show ?case by simp
  qed
  then show ?thesis by (simp add: cleanTracks_def)
qed

lemma removals_no_events: "adds isRemoveItem st s \<Longrightarrow> events (trace s) = events (trace st)"
proof -
  have "list_all isRemoveItem tr \<Longrightarrow> events tr = []" for tr
    by (induction tr rule: events.induct) auto
  then show "adds isRemoveItem st s \<Longrightarrow> events (trace s) = events (trace st)"
    unfolding adds_iff by (auto simp: events_append)
qed

text \<open>
  \<^bold>\<open>C8.\<close> When the caller has not passed \<^verbatim>\<open>resume\<close>, the store (after the sweep that
  \<^verbatim>\<open>upload\<close> starts with) holds a Track for the file's fingerprint and the resume policy
  answers \<^verbatim>\<open>cancel\<close>, the call resolves without starting an attempt: the state it leaves
  is the swept state, which differs from the state of the call in the store and the
  trace only; the sweep adds nothing but removals to the trace, so the events emitted are
  those emitted before the call.
\<close>

theorem cancel_policy_is_noop:
  assumes "\<not> resumeParam p" and "useCache opts = Some policy"
    and "\<not> nullish (getTrack pf (getHash pf (getOssItem f (uploadParam pf opts f p)))
               (cleanTracks pf now (expireTime opts) st))"
    and "policy f (getTrack pf (getHash pf (getOssItem f (uploadParam pf opts f p)))
               (cleanTracks pf now (expireTime opts) st)) = Inr CacheCancel"
  shows "upload pf opts world now st f p = (cleanTracks pf now (expireTime opts) st, Resolved) \<and>
     events (trace (fst (upload pf opts world now st f p))) = events (trace st) \<and>
     adds isRemoveItem st (fst (upload pf opts world now st f p)) \<and>
     (fst (upload pf opts world now st f p))\<lparr> localStorage := localStorage st, trace := trace st \<rparr>
       = st"
proof -
  have u: "upload pf opts world now st f p = (cleanTracks pf now (expireTime opts) st, Resolved)"
    using assms by (simp add: upload_def uploadIntent_def Let_def)
  from cleanTracks_frame [where pf = pf and now = now and e = "expireTime opts" and st = st
      and ls = "localStorage st" and tr = "trace st"]
  have "(cleanTracks pf now (expireTime opts) st)\<lparr> localStorage := localStorage st,
          trace := trace st \<rparr> = st"
    and a: "adds isRemoveItem st (cleanTracks pf now (expireTime opts) st)"
    by simp_all
  with u removals_no_events [OF a] show ?thesis by simp
qed

theorem cancel_policy_is_noop_witness:
  "\<not> resumeParam plainParam \<and>
   upload demoPlatform demoPolicyOptions demoWorld 1000 demoStored demoFile plainParam
     = (demoStored, Resolved) \<and>
   events (trace (fst (upload demoPlatform demoPolicyOptions demoWorld 1000 demoStored demoFile
       plainParam))) = events (trace demoStored)"
proof -
  have 1: "\<not> resumeParam plainParam" by (simp add: plainParam_def)
  have 2: "useCache demoPolicyOptions = Some demoCancelPolicy"
    by (simp add: demoPolicyOptions_def)
  have 3: "\<not> nullish (getTrack demoPlatform
        (getHash demoPlatform (getOssItem demoFile
          (uploadParam demoPlatform demoPolicyOptions demoFile plainParam)))
        (cleanTracks demoPlatform 1000 (expireTime demoPolicyOptions) demoStored))"
    by code_simp
  have 4: "demoCancelPolicy demoFile (getTrack demoPlatform
        (getHash demoPlatform (getOssItem demoFile
          (uploadParam demoPlatform demoPolicyOptions demoFile plainParam)))
        (cleanTracks demoPlatform 1000 (expireTime demoPolicyOptions) demoStored))
      = Inr CacheCancel"
    by (simp add: demoCancelPolicy_def)
  have 5: "cleanTracks demoPlatform 1000 (expireTime demoPolicyOptions) demoStored = demoStored"
    by code_simp
  show ?thesis
    using cancel_policy_is_noop [OF 1 2 3 4, of demoWorld] 1 5 by simp
qed

subsection \<open>Stop\<close>

























subsection \<open>Where the code departs from the specification\<close>

lemma completed_attempt_keeps_hasBegin:
  "resultUrl pf res = Inr url \<Longrightarrow>
     hasBegin (fst (uploadWork_done pf opts c st f i res)) = hasBegin st \<and>
     events (trace (fst (uploadWork_done pf opts c st f i res)))
       = events (trace st) @ [Done f url res]"
  by (auto simp: uploadWork_done_def st_defs events_append split: option.splits)

text \<open>
  \<^bold>\<open>C1.\<close> The scenario of the specification: the transfer fails twice and succeeds at the
  third attempt (\<open>maxTryCount\<close> 3). The events are \<^verbatim>\<open>begin\<close>, two \<^verbatim>\<open>fail\<close> and
  \<^verbatim>\<open>beforeRetry\<close> pairs, \<^verbatim>\<open>progress\<close>, and \<^verbatim>\<open>done\<close> with the URL cut at \<^verbatim>\<open>?uploadId=\<close>; the
  Track is gone from the store. No \<^verbatim>\<open>end\<close> event follows \<^verbatim>\<open>done\<close>, and \<^verbatim>\<open>hasBegin\<close> is
  still set: the success path of \<^verbatim>\<open>uploadWork\<close> calls \<^verbatim>\<open>clean\<close> and not \<^verbatim>\<open>end\<close>.
\<close>

theorem success_emits_no_end:
  "events (trace (fst (upload demoPlatform demoOptions demoWorld 990 initial demoFile plainParam)))
     = [Begin, BeforeGetToken, AfterGetToken demoFile demoToken, Prepare,
        Fail demoFile demoError, BeforeRetry demoFile 1 3,
        BeforeGetToken, AfterGetToken demoFile demoToken, Prepare,
        Fail demoFile demoError, BeforeRetry demoFile 2 3,
        BeforeGetToken, AfterGetToken demoFile demoToken, Prepare,
        Progress demoFile 100 (JObj []),
        Done demoFile ''http://oss/remote.png'' demoResult] \<and>
   hasBegin (fst (upload demoPlatform demoOptions demoWorld 990 initial demoFile plainParam)) \<and>
   getItem (fst (upload demoPlatform demoOptions demoWorld 990 initial demoFile plainParam))
     ''@ossuploadtrackh'' = None"
  by code_simp

lemma null_checkpoint_rejects:
  assumes "resumeParam p"
    and "cached = getTrack pf (getHash pf (getOssItem f (uploadParam pf opts f p)))
           (cleanTracks pf now (expireTime opts) st)"
    and "\<not> nullish cached" and "nullish (getProp cached ''checkpoint'')"
  shows "upload pf opts world now st f p
     = (cleanTracks pf now (expireTime opts) st, Rejected TypeError)"
  using assms by (auto simp: upload_def uploadIntent_def Let_def nullish_def)

text \<open>
  \<^bold>\<open>C3.\<close> \<open>demoPaused\<close> is the uploader after \<^verbatim>\<open>upload(demoFile)\<close>, the token provider's
  answer and \<^verbatim>\<open>pause()\<close>: its store holds the Track that \<^verbatim>\<open>saveTrack\<close> wrote once the token
  was there, with \<^verbatim>\<open>checkpoint: null\<close>. The \<^verbatim>\<open>upload(demoFile, {resume: true})\<close> that
  \<^verbatim>\<open>resume()\<close> then makes rejects with the \<^verbatim>\<open>TypeError\<close> of
  \<^verbatim>\<open>cachedTrack.checkpoint.file = file\<close>, and the state (the trace with it) is as before:
  no event reports the failure.
\<close>

theorem upload_rejects_on_null_checkpoint:
  "getItem demoPaused ''@ossuploadtrackh'' = Some ''saved'' \<and>
   JSON_parse demoPlatform ''saved'' = Some demoSavedTrack \<and>
   getProp demoSavedTrack ''checkpoint'' = JNull \<and>
   upload demoPlatform demoOptions demoWorld 1000 demoPaused demoFile resumeParamTrue
     = (demoPaused, Rejected TypeError)"
  by code_simp

end
